theory Spec2Isabelle
  imports Main "HOL-Library.Word" "HOL-Library.Monad_Syntax"
begin

section \<open>Data model of procmon.c\<close>

text \<open>
  The process monitoring core keeps exec images (\<open>image_exec_t\<close>) on the C heap,
  shared through reference counts, a queue of images acquired by the kernel
  extension before the audit event arrives (the prepq), and a table of processes.
  Images live in an explicit store from addresses to records, because they are
  shared between the process table, the prepq, the worker and the \<open>prev\<close> and
  \<open>script\<close> links of other images.

  Results of the operating system and of the other modules (open, stat, reading,
  hashing, the caches, code signing, runtime lookups, allocation) are inputs of the
  functions below: each function takes a record with one field for every external
  call it makes, holding what that call returned.  A failing call that the code
  follows by a test of \<open>errno\<close> carries the \<open>errno\<close> value seen after it.
\<close>

type_synonym pid_t = int
type_synonym off_t = int
type_synonym size_t = "64 word"
type_synonym addr = nat
type_synonym hashes_t = nat
type_synonym strset_t = "string set"

record timespec =
  tv_sec :: int
  tv_nsec :: int

record stat_attr_t =
  mode :: nat
  uid :: nat
  gid :: nat
  dev :: nat
  ino :: nat
  size_st :: off_t
  mtime :: timespec
  ctime :: timespec
  btime :: timespec

text \<open>The fields of \<open>audit_attr_t\<close> are those that procmon.c reads.\<close>

record audit_attr_t =
  mode :: nat
  uid :: nat
  gid :: nat
  dev :: nat
  ino :: nat

record audit_proc_t =
  pid :: pid_t
  auid :: nat
  euid :: nat
  ruid :: nat
  egid :: nat
  rgid :: nat
  sid :: nat

record codesign_t =
  is_good :: bool
  ident :: "string option"
  teamid :: "string option"

datatype eiflag =
  EIFLAG_STAT | EIFLAG_ATTR | EIFLAG_HASHES | EIFLAG_SHEBANG | EIFLAG_DONE
| EIFLAG_NOPATH | EIFLAG_PIDLOOKUP | EIFLAG_NOLOG | EIFLAG_NOLOG_KIDS | EIFLAG_ENOMEM

text \<open>
  \<open>image_exec_t\<close>.  The flag word is a set of flags: \<open>flags |= F\<close> inserts,
  \<open>flags &= ~F\<close> removes, \<open>flags & F\<close> tests membership.  The path is never NULL:
  \<open>image_exec_new\<close> asserts it and nothing clears it, so the tests \<open>if (ie->path)\<close>
  always succeed.  \<open>refs\<close> is a \<open>size_t\<close> and wraps.  The declaration of \<open>pqttl\<close> is
  not among the sources; it is a natural number here and is only ever compared
  for equality with MAXPQTTL after an increment.
\<close>

record image_exec_t =
  path :: string
  fd :: int
  stat :: stat_attr_t
  flags :: "eiflag set"
  hashes :: hashes_t
  codesign :: "codesign_t option"
  argv :: "string list option"
  envv :: "string list option"
  cwd :: "string option"
  subject :: audit_proc_t
  pid :: pid_t
  fork_tv :: timespec
  hdr_tv :: timespec
  prev :: "addr option"
  script :: "addr option"
  pqttl :: nat
  refs :: size_t

record proc_t =
  pid :: pid_t
  fork_tv :: timespec
  cwd :: "string option"
  image_exec :: "addr option"

record config_t =
  ancestors :: size_t
  kextlevel :: int
  hflags :: int
  codesign :: bool
  suppress_image_exec_at_start :: bool
  suppress_image_exec_by_ident :: strset_t
  suppress_image_exec_by_path :: strset_t
  suppress_image_exec_by_ancestor_ident :: strset_t
  suppress_image_exec_by_ancestor_path :: strset_t

text \<open>
  Macros and helpers of headers that are not among the sources, taken as
  parameters: the prepq time-to-live, the two kext levels that
  \<open>image_exec_acquire\<close> compares with, and the basename comparison of sys.c
  (0 when the basenames are equal).
\<close>

record extern_t =
  MAXPQTTL :: nat
  KEXTLEVEL_HASH :: int
  KEXTLEVEL_CSIG :: int
  sys_basenamecmp :: "string \<Rightarrow> string \<Rightarrow> int"

datatype cache_op =
  Cachehash_put nat nat timespec timespec timespec hashes_t
| Cachecsig_put hashes_t codesign_t

text \<open>
  The global state of procmon.c: the heap of images with the next address the
  allocator hands out, the process table, the prepq with its counters, the
  statistics, and three logs of calls into other modules (images handed to
  \<open>work_submit\<close>, writes to the two caches, \<open>kill(pid, 0)\<close> probes).
\<close>

record state =
  heap :: "addr \<rightharpoonup> image_exec_t"
  brk :: addr
  proctab :: "pid_t \<rightharpoonup> proc_t"
  pqlist :: "addr list"
  pqsize :: "64 word"
  pqlookup :: "64 word"
  pqmiss :: "64 word"
  pqdrop :: "64 word"
  pqskip :: "64 word"
  images :: "32 word"
  liveacq :: "64 word"
  miss_bypid :: "64 word"
  miss_forksubj :: "64 word"
  miss_execsubj :: "64 word"
  miss_execinterp :: "64 word"
  miss_chdirsubj :: "64 word"
  miss_getcwd :: "64 word"
  ooms :: "64 word"
  workq :: "addr list"
  cache_ops :: "cache_op list"
  probes :: "pid_t list"

definition ENOMEM :: int where
  "ENOMEM = 12"

definition ESRCH :: int where
  "ESRCH = 3"

definition SIZE_MAX :: size_t where
  "SIZE_MAX = 18446744073709551615"

definition zero_timespec :: timespec where
  "zero_timespec = \<lparr>tv_sec = 0, tv_nsec = 0\<rparr>"

definition zero_stat :: stat_attr_t where
  "zero_stat = \<lparr>stat_attr_t.mode = 0, stat_attr_t.uid = 0, stat_attr_t.gid = 0,
     stat_attr_t.dev = 0, stat_attr_t.ino = 0, size_st = 0,
     mtime = zero_timespec, ctime = zero_timespec, btime = zero_timespec\<rparr>"

definition zero_subject :: audit_proc_t where
  "zero_subject = \<lparr>audit_proc_t.pid = 0, auid = 0, euid = 0, ruid = 0, egid = 0,
     rgid = 0, sid = 0\<rparr>"

text \<open>
  Modelled from the spec: the string sets and the verdict of a signature
  (strset.h and codesign.h are not among the sources).  \<open>strset_contains3\<close> asks
  whether either of two strings, each possibly NULL, is in the set
  ("identifier or team-id is in by_ident").
\<close>

definition strset_contains :: "strset_t \<Rightarrow> string \<Rightarrow> bool" where
  "strset_contains set1 s = (s \<in> set1)"

definition strset_contains3 :: "strset_t \<Rightarrow> string option \<Rightarrow> string option \<Rightarrow> bool" where
  "strset_contains3 set1 s1 s2 =
     ((case s1 of None \<Rightarrow> False | Some x \<Rightarrow> x \<in> set1) \<or>
      (case s2 of None \<Rightarrow> False | Some x \<Rightarrow> x \<in> set1))"

definition codesign_is_good :: "codesign_t \<Rightarrow> bool" where
  "codesign_is_good cs = is_good cs"

section \<open>Images: open and acquire\<close>

text \<open>
  What the calls of \<open>image_exec_open\<close> returned: \<open>open\<close> (the descriptor, or -1),
  \<open>sys_fdattr\<close> (the attributes, or None for -1, leaving the image's stat as it was)
  and \<open>pread\<close> of two bytes (the bytes read, or None for -1).
\<close>

record open_env =
  open_r :: int
  fdattr_r :: "stat_attr_t option"
  pread_r :: "string option"

text \<open>The label \<open>fallback\<close> of \<open>image_exec_open\<close> (lines 230-237).\<close>

definition fallback :: "audit_attr_t \<Rightarrow> image_exec_t \<Rightarrow> int \<times> image_exec_t" where
  "fallback attr img =
     (0, img\<lparr>stat := (stat img)\<lparr>stat_attr_t.mode := audit_attr_t.mode attr,
                                    stat_attr_t.uid := audit_attr_t.uid attr,
                                    stat_attr_t.gid := audit_attr_t.gid attr,
                                    stat_attr_t.dev := audit_attr_t.dev attr,
                                    stat_attr_t.ino := audit_attr_t.ino attr\<rparr>,
               flags := insert EIFLAG_ATTR (flags img)\<rparr>)"

text \<open>
  \<open>if (attr) goto fallback; return -1;\<close>
\<close>

definition fallback_or_fail ::
  "audit_attr_t option \<Rightarrow> image_exec_t \<Rightarrow> int \<times> image_exec_t" where
  "fallback_or_fail attr img =
     (case attr of Some a \<Rightarrow> fallback a img | None \<Rightarrow> (- 1, img))"

text \<open>The comparison of lines 212-216.\<close>

definition attr_mismatch :: "stat_attr_t \<Rightarrow> audit_attr_t \<Rightarrow> bool" where
  "attr_mismatch st a =
     (stat_attr_t.mode st \<noteq> audit_attr_t.mode a \<or>
      stat_attr_t.uid st \<noteq> audit_attr_t.uid a \<or>
      stat_attr_t.gid st \<noteq> audit_attr_t.gid a \<or>
      stat_attr_t.dev st \<noteq> audit_attr_t.dev a \<or>
      stat_attr_t.ino st \<noteq> audit_attr_t.ino a)"

text \<open>
  \<open>image_exec_open\<close>.  The result is None when the assertion of line 197 fails
  (a path under /dev/), else the return value and the image.
\<close>

definition image_exec_open ::
  "open_env \<Rightarrow> audit_attr_t option \<Rightarrow> image_exec_t \<Rightarrow> (int \<times> image_exec_t) option" where
  "image_exec_open e attr img =
     (if EIFLAG_STAT \<in> flags img \<or> EIFLAG_ATTR \<in> flags img then Some (0, img)
      else if EIFLAG_NOPATH \<in> flags img then Some (fallback_or_fail attr img)
      else if take 5 (path img) = ''/dev/'' then None
      else
        let img = img\<lparr>fd := open_r e\<rparr> in
        if fd img = - 1 then Some (fallback_or_fail attr img)
        else
          (case fdattr_r e of
             None \<Rightarrow> Some (fallback_or_fail attr img)
           | Some st \<Rightarrow>
               let img = img\<lparr>stat := st\<rparr> in
               (case attr of
                  Some a \<Rightarrow>
                    if attr_mismatch (stat img) a then Some (fallback a img)
                    else
                      let img = (if pread_r e = Some ''#!''
                                   then img\<lparr>flags := insert EIFLAG_SHEBANG (flags img)\<rparr>
                                   else img)
                      in Some (0, img\<lparr>flags := insert EIFLAG_STAT (flags img)\<rparr>)
                | None \<Rightarrow>
                    let img = (if pread_r e = Some ''#!''
                                 then img\<lparr>flags := insert EIFLAG_SHEBANG (flags img)\<rparr>
                                 else img)
                    in Some (0, img\<lparr>flags := insert EIFLAG_STAT (flags img)\<rparr>))))"

definition image_exec_close :: "image_exec_t \<Rightarrow> image_exec_t" where
  "image_exec_close img = (if fd img \<noteq> - 1 then img\<lparr>fd := - 1\<rparr> else img)"

text \<open>
  What the calls of \<open>image_exec_acquire\<close> returned: \<open>cachehash_get\<close> (the hashes on
  a hit), \<open>hashes_fd\<close> (return value, bytes read, hashes), the second
  \<open>sys_fdattr\<close>, \<open>cachecsig_get\<close> and \<open>codesign_new\<close> (the signature, or the errno
  seen after NULL), and \<open>sys_pathattr\<close>.
\<close>

record acq_env =
  cachehash_get_r :: "hashes_t option"
  hashes_fd_r :: "int \<times> off_t \<times> hashes_t"
  fdattr2_r :: "stat_attr_t option"
  cachecsig_get_r :: "int + codesign_t"
  codesign_new_r :: "int + codesign_t"
  pathattr_r :: "stat_attr_t option"

text \<open>The comparison of lines 313-319 (second stat, through the descriptor).\<close>

definition fdstat_differs :: "stat_attr_t \<Rightarrow> stat_attr_t \<Rightarrow> bool" where
  "fdstat_differs s1 st =
     (size_st s1 \<noteq> size_st st \<or>
      tv_sec (mtime s1) \<noteq> tv_sec (mtime st) \<or>
      tv_nsec (mtime s1) \<noteq> tv_nsec (mtime st) \<or>
      tv_sec (ctime s1) \<noteq> tv_sec (ctime st) \<or>
      tv_nsec (ctime s1) \<noteq> tv_nsec (ctime st) \<or>
      tv_sec (btime s1) \<noteq> tv_sec (btime st) \<or>
      tv_nsec (btime s1) \<noteq> tv_nsec (btime st))"

text \<open>The comparison of lines 409-417 (third stat, by path).\<close>

definition pathstat_differs :: "stat_attr_t \<Rightarrow> stat_attr_t \<Rightarrow> bool" where
  "pathstat_differs s1 st =
     (size_st s1 \<noteq> size_st st \<or>
      stat_attr_t.dev s1 \<noteq> stat_attr_t.dev st \<or>
      stat_attr_t.ino s1 \<noteq> stat_attr_t.ino st \<or>
      tv_sec (mtime s1) \<noteq> tv_sec (mtime st) \<or>
      tv_nsec (mtime s1) \<noteq> tv_nsec (mtime st) \<or>
      tv_sec (ctime s1) \<noteq> tv_sec (ctime st) \<or>
      tv_nsec (ctime s1) \<noteq> tv_nsec (ctime st) \<or>
      tv_sec (btime s1) \<noteq> tv_sec (btime st) \<or>
      tv_nsec (btime s1) \<noteq> tv_nsec (btime st))"

definition set_done :: "image_exec_t \<Rightarrow> image_exec_t" where
  "set_done img = img\<lparr>flags := insert EIFLAG_DONE (flags img)\<rparr>"

text \<open>
  Lines 279-341 of \<open>image_exec_acquire\<close>, the hashes.  The first component is -1
  where the C function returns -1 and 0 where it goes on to line 347.
\<close>

definition acquire_hashes ::
  "config_t \<Rightarrow> acq_env \<Rightarrow> image_exec_t \<Rightarrow> int \<times> image_exec_t \<times> cache_op list" where
  "acquire_hashes config e img =
     (if EIFLAG_HASHES \<in> flags img then (0, img, [])
      else if EIFLAG_STAT \<notin> flags img \<or> fd img = - 1 then (- 1, set_done img, [])
      else
        (case cachehash_get_r e of
           Some h \<Rightarrow>
             (0, img\<lparr>hashes := h, flags := insert EIFLAG_HASHES (flags img)\<rparr>, [])
         | None \<Rightarrow>
             (case hashes_fd_r e of
                (rv, sz, h) \<Rightarrow>
                  let img = img\<lparr>hashes := h\<rparr> in
                  if rv = - 1 \<or> sz \<noteq> size_st (stat img)
                  then (- 1, set_done (img\<lparr>fd := - 1\<rparr>), [])
                  else
                    (case fdattr2_r e of
                       None \<Rightarrow> (- 1, set_done (img\<lparr>fd := - 1\<rparr>), [])
                     | Some st \<Rightarrow>
                         if fdstat_differs (stat img) st
                         then (- 1, set_done (img\<lparr>flags := flags img - {EIFLAG_HASHES},
                                                       fd := - 1\<rparr>), [])
                         else (0, img\<lparr>flags := insert EIFLAG_HASHES (flags img)\<rparr>,
                               [Cachehash_put (stat_attr_t.dev (stat img))
                                  (stat_attr_t.ino (stat img)) (mtime (stat img))
                                  (ctime (stat img)) (btime (stat img))
                                  (hashes img)])))))"

text \<open>
  Lines 368-381: the signature cache.  Inl is the return of -1 at line 374.
\<close>

definition acquire_csig_cache :: "acq_env \<Rightarrow> image_exec_t \<Rightarrow> image_exec_t + image_exec_t" where
  "acquire_csig_cache e img =
     (if image_exec_t.codesign img = None \<and> EIFLAG_HASHES \<in> flags img then
        (case cachecsig_get_r e of
           Inr cs \<Rightarrow> Inr (img\<lparr>image_exec_t.codesign := Some cs\<rparr>)
         | Inl err \<Rightarrow>
             if err = ENOMEM
             then Inl (set_done (img\<lparr>flags := insert EIFLAG_ENOMEM (flags img)\<rparr>))
             else Inr img)
      else Inr img)"

text \<open>
  Lines 353-432 of \<open>image_exec_acquire\<close>: everything after the descriptor is
  closed.
\<close>

definition acquire_codesign ::
  "extern_t \<Rightarrow> config_t \<Rightarrow> acq_env \<Rightarrow> bool \<Rightarrow> image_exec_t \<Rightarrow>
   int \<times> image_exec_t \<times> cache_op list" where
  "acquire_codesign x config e kern img =
     (if kern \<and> kextlevel config < KEXTLEVEL_CSIG x then (0, img, [])
      else if EIFLAG_SHEBANG \<in> flags img then (0, set_done img, [])
      else
        (case acquire_csig_cache e img of
           Inl img \<Rightarrow> (- 1, img, [])
         | Inr img \<Rightarrow>
             if image_exec_t.codesign img = None \<and> config_t.codesign config then
               if kern \<and> (path img = ''/usr/libexec/xpcproxy'' \<or>
                          path img = ''/usr/sbin/ocspd'')
               then (0, img, [])
               else
                 (case codesign_new_r e of
                    Inl err \<Rightarrow>
                      (- 1, set_done (if err = ENOMEM
                                      then img\<lparr>flags := insert EIFLAG_ENOMEM (flags img)\<rparr>
                                      else img), [])
                  | Inr cs \<Rightarrow>
                      let img = img\<lparr>image_exec_t.codesign := Some cs\<rparr> in
                      (case pathattr_r e of
                         None \<Rightarrow> (- 1, set_done img, [])
                       | Some st \<Rightarrow>
                           if pathstat_differs (stat img) st
                           then (- 1, set_done (img\<lparr>image_exec_t.codesign := None\<rparr>), [])
                           else (0, set_done img, [Cachecsig_put (hashes img) cs])))
             else (0, set_done img, [])))"

text \<open>
  \<open>image_exec_acquire\<close>: the return value, the image, and the cache writes made.
\<close>

definition image_exec_acquire ::
  "extern_t \<Rightarrow> config_t \<Rightarrow> acq_env \<Rightarrow> bool \<Rightarrow> image_exec_t \<Rightarrow>
   int \<times> image_exec_t \<times> cache_op list" where
  "image_exec_acquire x config e kern img =
     (if EIFLAG_DONE \<in> flags img then (0, img, [])
      else if kern \<and> kextlevel config < KEXTLEVEL_HASH x then (0, img, [])
      else if kern \<and> size_st (stat img) > 1024 * 1024 * 8 then (0, img, [])
      else
        (case acquire_hashes config e img of
           (rv, img, ops) \<Rightarrow>
             if rv = - 1 then (- 1, img, ops)
             else
               (case acquire_codesign x config e kern (image_exec_close img) of
                  (rv, img, ops2) \<Rightarrow> (rv, img, ops @ ops2))))"

section \<open>Images on the heap\<close>

text \<open>
  A function that follows a pointer to an image reads the heap at that address.
  Reading an address that holds no image (a dangling pointer) has no defined
  result in C; the functions below then return None, as they do where an
  \<open>assert\<close> fails.
\<close>

definition new_image :: "string \<Rightarrow> image_exec_t" where
  "new_image p =
     \<lparr>path = p, fd = - 1, stat = zero_stat, flags = {}, hashes = 0,
      image_exec_t.codesign = None, argv = None, envv = None, image_exec_t.cwd = None,
      subject = zero_subject, image_exec_t.pid = 0, image_exec_t.fork_tv = zero_timespec,
      hdr_tv = zero_timespec, prev = None, script = None, pqttl = 0, refs = 1\<rparr>"

text \<open>
  \<open>image_exec_new\<close>.  The first argument tells whether \<open>malloc\<close> succeeded.  The
  allocator hands out the address \<open>brk\<close>, which it never hands out again.
\<close>

definition image_exec_new :: "bool \<Rightarrow> string \<Rightarrow> state \<Rightarrow> addr option \<times> state" where
  "image_exec_new malloc_ok p s =
     (if \<not> malloc_ok then (None, s\<lparr>ooms := ooms s + 1\<rparr>)
      else (Some (brk s),
            s\<lparr>heap := (heap s)(brk s \<mapsto> new_image p), brk := brk s + 1,
              images := images s + 1\<rparr>))"

text \<open>
  \<open>image_exec_free\<close>: drop one reference; at zero, release the script and the
  previous image, then the image itself.  The recursion follows the links of the
  heap and need not end on a heap with cycles, so the function is partial.
\<close>

partial_function (option) image_exec_free :: "addr \<Rightarrow> state \<Rightarrow> state option" where
  "image_exec_free a s =
     (case heap s a of
        None \<Rightarrow> None
      | Some img \<Rightarrow>
          if refs img - 1 > 0
          then Some (s\<lparr>heap := (heap s)(a \<mapsto> img\<lparr>refs := refs img - 1\<rparr>)\<rparr>)
          else do {
            s1 \<leftarrow> (case script img of
                     Some sc \<Rightarrow>
                       image_exec_free sc (s\<lparr>heap := (heap s)(a \<mapsto> img\<lparr>refs := refs img - 1\<rparr>)\<rparr>)
                   | None \<Rightarrow> Some (s\<lparr>heap := (heap s)(a \<mapsto> img\<lparr>refs := refs img - 1\<rparr>)\<rparr>));
            s2 \<leftarrow> (case heap s1 a of
                     None \<Rightarrow> None
                   | Some img1 \<Rightarrow>
                       (case prev img1 of
                          Some p \<Rightarrow> image_exec_free p s1
                        | None \<Rightarrow> Some s1));
            (case heap s2 a of
               None \<Rightarrow> None
             | Some img2 \<Rightarrow> Some (s2\<lparr>heap := (heap s2)(a := None), images := images s2 - 1\<rparr>))
          })"

definition image_exec_ref :: "addr \<Rightarrow> state \<Rightarrow> state option" where
  "image_exec_ref a s =
     (case heap s a of
        None \<Rightarrow> None
      | Some img \<Rightarrow> Some (s\<lparr>heap := (heap s)(a \<mapsto> img\<lparr>refs := refs img + 1\<rparr>)\<rparr>))"

text \<open>
  \<open>image_exec_prune_ancestors\<close>.  The recursion goes on only while
  \<open>level < config->ancestors\<close>, which bounds it.
\<close>

function image_exec_prune_ancestors ::
  "config_t \<Rightarrow> addr \<Rightarrow> size_t \<Rightarrow> state \<Rightarrow> state option" where
  "image_exec_prune_ancestors config a level s =
     (case heap s a of
        None \<Rightarrow> None
      | Some img \<Rightarrow>
          (case prev img of
             None \<Rightarrow> Some s
           | Some p \<Rightarrow>
               if level \<ge> ancestors config then
                 do {
                   s1 \<leftarrow> image_exec_free p s;
                   (case heap s1 a of
                      None \<Rightarrow> None
                    | Some img1 \<Rightarrow> Some (s1\<lparr>heap := (heap s1)(a \<mapsto> img1\<lparr>prev := None\<rparr>)\<rparr>))
                 }
               else if refs img = 1
               then image_exec_prune_ancestors config p (level + 1) s
               else Some s))"
  by pat_completeness auto
termination
proof (relation "measure (\<lambda>(config, a, level, s). unat (ancestors config) - unat level)")
  show "wf (measure (\<lambda>(config, a, level, s). unat (ancestors config) - unat level))"
    by simp
next
  fix config :: config_t and a :: addr and level :: size_t and s :: state
    and x2 :: image_exec_t and x2a :: addr
  assume "\<not> ancestors config \<le> level"
  then have lt: "level < ancestors config" by simp
  then have b: "unat level < unat (ancestors config)"
    by (simp add: word_less_nat_alt)
  have "unat (ancestors config) < 2 ^ 64"
    using unsigned_less [of "ancestors config", where ?'a = nat] by simp
  with b have "unat level + unat (1 :: 64 word) < 2 ^ LENGTH(64)" by simp
  then have "unat (level + 1) = unat level + unat (1 :: 64 word)"
    by (rule unat_add_lem [THEN iffD1])
  then have "unat (level + 1) = Suc (unat level)" by simp
  moreover note b
  ultimately show "((config, x2a, level + 1, s), (config, a, level, s))
      \<in> measure (\<lambda>(config, a, level, s). unat (ancestors config) - unat level)"
    by simp
qed

declare image_exec_prune_ancestors.simps [simp del]

text \<open>
  \<open>image_exec_match_suppressions\<close>, on the image at address \<open>a\<close>.
\<close>

definition image_exec_match_suppressions ::
  "state \<Rightarrow> addr \<Rightarrow> strset_t \<Rightarrow> strset_t \<Rightarrow> bool option" where
  "image_exec_match_suppressions s a by_ident by_path =
     (case heap s a of
        None \<Rightarrow> None
      | Some ie \<Rightarrow>
          if (case image_exec_t.codesign ie of
                None \<Rightarrow> False
              | Some cs \<Rightarrow> codesign_is_good cs \<and>
                           strset_contains3 by_ident (ident cs) (teamid cs))
          then Some True
          else if strset_contains by_path (path ie) then Some True
          else
            (case script ie of
               None \<Rightarrow> Some False
             | Some sc \<Rightarrow>
                 (case heap s sc of
                    None \<Rightarrow> None
                  | Some sie \<Rightarrow> Some (strset_contains by_path (path sie)))))"

text \<open>
  \<open>image_exec_acquire(p, false); image_exec_close(p)\<close> on the image at an address,
  as \<open>image_exec_work\<close> runs it; the cache writes are appended to the log.
\<close>

definition acquire_close_at ::
  "extern_t \<Rightarrow> config_t \<Rightarrow> acq_env \<Rightarrow> addr \<Rightarrow> state \<Rightarrow> state option" where
  "acquire_close_at x config e a s =
     (case heap s a of
        None \<Rightarrow> None
      | Some img \<Rightarrow>
          (case image_exec_acquire x config e False img of
             (rv, img1, ops) \<Rightarrow>
               Some (s\<lparr>heap := (heap s)(a \<mapsto> image_exec_close img1),
                       cache_ops := cache_ops s @ ops\<rparr>)))"

text \<open>
  \<open>image_exec_work\<close>, with the results of the external calls of the two
  acquisitions (of the image, and of its script).
\<close>

definition image_exec_work ::
  "extern_t \<Rightarrow> config_t \<Rightarrow> acq_env \<Rightarrow> acq_env \<Rightarrow> addr \<Rightarrow> state \<Rightarrow> (int \<times> state) option" where
  "image_exec_work x config e1 e2 a s =
     do {
       s1 \<leftarrow> acquire_close_at x config e1 a s;
       ei \<leftarrow> heap s1 a;
       s2 \<leftarrow> (case script ei of
                None \<Rightarrow> Some s1
              | Some sc \<Rightarrow> acquire_close_at x config e2 sc s1);
       s3 \<leftarrow> (if ancestors config < SIZE_MAX
              then image_exec_prune_ancestors config a 0 s2
              else Some s2);
       ei3 \<leftarrow> heap s3 a;
       if EIFLAG_ENOMEM \<in> flags ei3 then Some (- 1, s3\<lparr>ooms := ooms s3 + 1\<rparr>)
       else if EIFLAG_NOLOG \<in> flags ei3 then Some (- 1, s3)
       else do {
         m \<leftarrow> image_exec_match_suppressions s3 a (suppress_image_exec_by_ident config)
                (suppress_image_exec_by_path config);
         Some (if m then - 1 else 0, s3)
       }
     }"

text \<open>
  The ancestors of an image, as the list of addresses met along \<open>prev\<close> until
  NULL: \<open>ancestor_chain h p as\<close> holds when the pointer \<open>p\<close> leads through exactly
  the images \<open>as\<close>.
\<close>

fun ancestor_chain :: "(addr \<rightharpoonup> image_exec_t) \<Rightarrow> addr option \<Rightarrow> addr list \<Rightarrow> bool" where
  "ancestor_chain h p [] = (p = None)"
| "ancestor_chain h p (a # as) =
     (p = Some a \<and> (case h a of None \<Rightarrow> False | Some img \<Rightarrow> ancestor_chain h (prev img) as))"

section \<open>Reference counts and links\<close>

text \<open>
  An image refers to other images through its two links, \<open>prev\<close> and \<open>script\<close>.
  \<open>image_exec_free\<close> follows a link of an image once, when the reference count
  of that image has reached zero; from then on the link is spent.  \<open>holds h D a b\<close>
  is the number of links of the image at \<open>a\<close> that lead to \<open>b\<close> and are not among
  the spent links \<open>D\<close>, and \<open>held_by h D n b\<close> is the number of such links in the
  images at the addresses below \<open>n\<close>.
\<close>

datatype link = Prev | Script

definition link_of :: "link \<Rightarrow> image_exec_t \<Rightarrow> addr option" where
  "link_of l ei = (case l of Prev \<Rightarrow> prev ei | Script \<Rightarrow> script ei)"

definition holds ::
  "(addr \<rightharpoonup> image_exec_t) \<Rightarrow> (addr \<times> link) set \<Rightarrow> addr \<Rightarrow> addr \<Rightarrow> nat" where
  "holds h D a b =
     (case h a of
        None \<Rightarrow> 0
      | Some ei \<Rightarrow>
          (if prev ei = Some b \<and> (a, Prev) \<notin> D then 1 else 0) +
          (if script ei = Some b \<and> (a, Script) \<notin> D then 1 else 0))"

fun held_by ::
  "(addr \<rightharpoonup> image_exec_t) \<Rightarrow> (addr \<times> link) set \<Rightarrow> nat \<Rightarrow> addr \<Rightarrow> nat" where
  "held_by h D 0 b = 0"
| "held_by h D (Suc n) b = held_by h D n b + holds h D n b"

text \<open>
  The heap is reference counted when every image lies below the allocation mark
  \<open>n\<close>, every link that is not spent leads to an image on the heap of lower rank
  (so there is no cycle of links; the rank can be the address when every image
  is linked to images allocated before it), and the reference count of every
  image is at least the number of links that lead to it and are not spent.
  The links of \<open>D\<close> are exempt; no link is spent when \<open>D\<close> is empty.
\<close>

definition refs_ok ::
  "(addr \<Rightarrow> nat) \<Rightarrow> (addr \<rightharpoonup> image_exec_t) \<Rightarrow> (addr \<times> link) set \<Rightarrow> nat \<Rightarrow> bool" where
  "refs_ok rk h D n =
     ((\<forall>a. h a \<noteq> None \<longrightarrow> a < n) \<and>
      (\<forall>a ei l b. h a = Some ei \<and> link_of l ei = Some b \<and> (a, l) \<notin> D \<longrightarrow>
         rk b < rk a \<and> h b \<noteq> None) \<and>
      (\<forall>b ei. h b = Some ei \<longrightarrow> held_by h D n b \<le> unat (refs ei)))"

section \<open>The prepq\<close>

definition prepq_append :: "addr \<Rightarrow> state \<Rightarrow> state" where
  "prepq_append ei s = s\<lparr>pqlist := pqlist s @ [ei], pqsize := pqsize s + 1\<rparr>"

definition prepq_remove_existing :: "addr \<Rightarrow> state \<Rightarrow> state" where
  "prepq_remove_existing ei s = s\<lparr>pqlist := remove1 ei (pqlist s), pqsize := pqsize s - 1\<rparr>"

text \<open>\<open>argv && argv[0] && argv[1]\<close>\<close>

definition argv_has2 :: "string list option \<Rightarrow> bool" where
  "argv_has2 av = (case av of Some (a0 # a1 # rest) \<Rightarrow> True | _ \<Rightarrow> False)"

text \<open>The match on the image slot (lines 778-782).\<close>

definition pq_match_image ::
  "extern_t \<Rightarrow> pid_t \<Rightarrow> string \<Rightarrow> audit_attr_t option \<Rightarrow> image_exec_t \<Rightarrow> bool" where
  "pq_match_image x ppid imagepath attr ei =
     (image_exec_t.pid ei = ppid \<and>
      (case attr of
         Some a \<Rightarrow> stat_attr_t.dev (stat ei) = audit_attr_t.dev a \<and>
                   stat_attr_t.ino (stat ei) = audit_attr_t.ino a
       | None \<Rightarrow> sys_basenamecmp x (path ei) imagepath = 0))"

text \<open>The match on the interpreter slot (lines 801-802); \<open>argv[0]\<close> is there.\<close>

definition pq_match_interp ::
  "extern_t \<Rightarrow> pid_t \<Rightarrow> string list option \<Rightarrow> image_exec_t \<Rightarrow> bool" where
  "pq_match_interp x ppid av ei =
     (image_exec_t.pid ei = ppid \<and>
      (case av of Some (a0 # rest) \<Rightarrow> sys_basenamecmp x (path ei) a0 = 0 | _ \<Rightarrow> False))"

text \<open>
  Lines 810-823: a node that did not match is counted as skipped, its \<open>pqttl\<close> is
  incremented, and when that reaches MAXPQTTL the node is unlinked and freed.
\<close>

definition pq_skip :: "extern_t \<Rightarrow> addr \<Rightarrow> image_exec_t \<Rightarrow> state \<Rightarrow> state option" where
  "pq_skip x n ei s =
     (let s1 = s\<lparr>pqskip := pqskip s + 1,
                 heap := (heap s)(n \<mapsto> ei\<lparr>pqttl := pqttl ei + 1\<rparr>)\<rparr>
      in if pqttl ei + 1 = MAXPQTTL x
         then do {
           s2 \<leftarrow> image_exec_free n (prepq_remove_existing n s1);
           Some (s2\<lparr>pqdrop := pqdrop s2 + 1\<rparr>)
         }
         else Some s1)"

text \<open>
  The loop of \<open>prepq_lookup\<close> over the nodes of the queue, head first.  The
  list node of an image is a field of the image (\<open>&ei->hdr.node\<close>, line 731),
  and the loop advances by \<open>node = node->next\<close> (line 765).  Unlinking a node
  (\<open>tommy_list_remove_existing\<close>, which is not among the sources) changes the
  links of its neighbours and of the list head and leaves the \<open>next\<close> field of
  the unlinked node as it was; so, as long as the image of the current node is
  on the heap, the loop visits the nodes the queue had when the loop began, in
  order, until it breaks.  When the skip of lines 816-823 has released the image
  of the current node (the queue held its last reference), the advance of line
  765 reads \<open>next\<close> from released memory: the result is None, as for any other
  read through a dangling pointer.  \<open>image\<close> and \<open>interp\<close> are the two result
  slots.
\<close>

fun prepq_lookup_loop ::
  "extern_t \<Rightarrow> pid_t \<Rightarrow> string \<Rightarrow> audit_attr_t option \<Rightarrow> string list option \<Rightarrow>
   addr list \<Rightarrow> addr option \<Rightarrow> addr option \<Rightarrow> state \<Rightarrow>
   (addr option \<times> addr option \<times> state) option" where
  "prepq_lookup_loop x ppid imagepath attr av [] img interp s = Some (img, interp, s)"
| "prepq_lookup_loop x ppid imagepath attr av (n # ns) img interp s =
     (case heap s n of
        None \<Rightarrow> None
      | Some ei \<Rightarrow>
          if img = None then
            if pq_match_image x ppid imagepath attr ei then
              if EIFLAG_SHEBANG \<in> flags ei \<and> argv_has2 av
              then prepq_lookup_loop x ppid imagepath attr av ns (Some n) interp
                     (prepq_remove_existing n s)
              else Some (Some n, interp, prepq_remove_existing n s)
            else
              (case pq_skip x n ei s of
                 None \<Rightarrow> None
               | Some s1 \<Rightarrow>
                   if heap s1 n = None then None
                   else prepq_lookup_loop x ppid imagepath attr av ns img interp s1)
          else if interp \<noteq> None then None
          else if \<not> argv_has2 av then None
          else if pq_match_interp x ppid av ei
          then Some (img, Some n, prepq_remove_existing n s)
          else
            (case pq_skip x n ei s of
               None \<Rightarrow> None
             | Some s1 \<Rightarrow>
                 if heap s1 n = None then None
                 else prepq_lookup_loop x ppid imagepath attr av ns img interp s1))"

text \<open>
  \<open>prepq_lookup\<close>: both slots start as NULL, the lookup is counted, the loop
  runs, and the final assertion (an interpreter only with an image) is checked.
\<close>

definition prepq_lookup ::
  "extern_t \<Rightarrow> pid_t \<Rightarrow> string \<Rightarrow> audit_attr_t option \<Rightarrow> string list option \<Rightarrow>
   state \<Rightarrow> (addr option \<times> addr option \<times> state) option" where
  "prepq_lookup x ppid imagepath attr av s =
     (case prepq_lookup_loop x ppid imagepath attr av (pqlist s) None None
             (s\<lparr>pqlookup := pqlookup s + 1\<rparr>) of
        None \<Rightarrow> None
      | Some (img, interp, s1) \<Rightarrow>
          if interp \<noteq> None \<and> img = None then None else Some (img, interp, s1))"

text \<open>
  \<open>procmon_kern_preexec\<close>.  The record holds whether \<open>strdup\<close> and the allocation
  of the image succeeded and what the calls of open and acquire returned.
\<close>

record preexec_env =
  pe_strdup_ok :: bool
  pe_malloc_ok :: bool
  pe_open :: open_env
  pe_acquire :: acq_env

definition procmon_kern_preexec ::
  "extern_t \<Rightarrow> config_t \<Rightarrow> preexec_env \<Rightarrow> timespec \<Rightarrow> pid_t \<Rightarrow> string \<Rightarrow> state \<Rightarrow>
   state option" where
  "procmon_kern_preexec x config e tm p imagepath s =
     (if \<not> pe_strdup_ok e then Some (s\<lparr>ooms := ooms s + 1\<rparr>)
      else
        (case image_exec_new (pe_malloc_ok e) imagepath s of
           (None, s1) \<Rightarrow> Some s1
         | (Some a, s1) \<Rightarrow>
             do {
               ei \<leftarrow> heap s1 a;
               (rv, ei1) \<leftarrow> image_exec_open (pe_open e) None
                               (ei\<lparr>hdr_tv := tm, image_exec_t.pid := p\<rparr>);
               (case image_exec_acquire x config (pe_acquire e) True ei1 of
                  (rv2, ei2, ops) \<Rightarrow>
                    Some (prepq_append a
                            (s1\<lparr>heap := (heap s1)(a \<mapsto> ei2),
                                cache_ops := cache_ops s1 @ ops\<rparr>)))
             }))"

section \<open>The process table\<close>

text \<open>
  Modelled from the spec: the process table of proc.c, which is not among the
  sources.  It maps a pid to the process; \<open>find(pid)\<close>, \<open>find_or_create(pid)\<close>,
  \<open>create(pid)\<close> (the pid must be absent) and \<open>remove(pid, tv)\<close>, which frees what
  the process owns: the table's pointer to the current image holds exactly one
  reference, released on removal.  A pointer to a process is its pid.  The
  boolean tells whether the allocation of a new entry succeeded.
\<close>

definition new_proc :: "pid_t \<Rightarrow> proc_t" where
  "new_proc p = \<lparr>proc_t.pid = p, proc_t.fork_tv = zero_timespec, proc_t.cwd = None,
                 image_exec = None\<rparr>"

definition proctab_find :: "pid_t \<Rightarrow> state \<Rightarrow> proc_t option" where
  "proctab_find p s = proctab s p"

definition proctab_create :: "bool \<Rightarrow> pid_t \<Rightarrow> state \<Rightarrow> (pid_t option \<times> state) option" where
  "proctab_create malloc_ok p s =
     (if proctab s p \<noteq> None then None
      else if \<not> malloc_ok then Some (None, s)
      else Some (Some p, s\<lparr>proctab := (proctab s)(p \<mapsto> new_proc p)\<rparr>))"

definition proctab_find_or_create :: "bool \<Rightarrow> pid_t \<Rightarrow> state \<Rightarrow> pid_t option \<times> state" where
  "proctab_find_or_create malloc_ok p s =
     (if proctab s p \<noteq> None then (Some p, s)
      else if \<not> malloc_ok then (None, s)
      else (Some p, s\<lparr>proctab := (proctab s)(p \<mapsto> new_proc p)\<rparr>))"

definition proctab_remove :: "pid_t \<Rightarrow> timespec option \<Rightarrow> state \<Rightarrow> state option" where
  "proctab_remove p tv s =
     (case proctab s p of
        None \<Rightarrow> Some s
      | Some proc \<Rightarrow>
          do {
            s1 \<leftarrow> (case image_exec proc of
                     None \<Rightarrow> Some s
                   | Some a \<Rightarrow> image_exec_free a s);
            Some (s1\<lparr>proctab := (proctab s1)(p := None)\<rparr>)
          })"

text \<open>Assignment to the fields of the process behind a pointer.\<close>

definition proc_update :: "pid_t \<Rightarrow> (proc_t \<Rightarrow> proc_t) \<Rightarrow> state \<Rightarrow> state option" where
  "proc_update p f s =
     (case proctab s p of
        None \<Rightarrow> None
      | Some proc \<Rightarrow> Some (s\<lparr>proctab := (proctab s)(p \<mapsto> f proc)\<rparr>))"

text \<open>Assignment to the fields of the image behind a pointer.\<close>

definition image_update :: "addr \<Rightarrow> (image_exec_t \<Rightarrow> image_exec_t) \<Rightarrow> state \<Rightarrow> state option" where
  "image_update a f s =
     (case heap s a of
        None \<Rightarrow> None
      | Some img \<Rightarrow> Some (s\<lparr>heap := (heap s)(a \<mapsto> f img)\<rparr>))"

text \<open>\<open>image_exec_open\<close> on the image behind a pointer.\<close>

definition image_exec_open_at ::
  "open_env \<Rightarrow> audit_attr_t option \<Rightarrow> addr \<Rightarrow> state \<Rightarrow> state option" where
  "image_exec_open_at e attr a s =
     do {
       img \<leftarrow> heap s a;
       (rv, img1) \<leftarrow> image_exec_open e attr img;
       Some (s\<lparr>heap := (heap s)(a \<mapsto> img1)\<rparr>)
     }"

definition work_submit :: "addr \<Rightarrow> state \<Rightarrow> state" where
  "work_submit a s = s\<lparr>workq := workq s @ [a]\<rparr>"

section \<open>Recovery from a live pid\<close>

text \<open>
  What the runtime lookups and allocations return, by pid, during one event:
  \<open>sys_pidpath\<close>, \<open>asprintf\<close>, the allocation of the image, \<open>timespec_nanotime\<close>,
  the allocation of the process, \<open>sys_pidbsdinfo\<close> (fork time and parent pid),
  \<open>sys_pidcwd\<close>, and the calls of \<open>image_exec_open\<close>.  Inl carries the
  \<open>errno\<close> seen after a failure.  The remaining fields are the results of the
  calls that \<open>procmon_fork\<close>, \<open>procmon_exec\<close> and \<open>procmon_wait4\<close> make
  themselves; \<open>kill_r\<close> is None when \<open>kill\<close> returns 0.
\<close>

record os_env =
  pidpath_r :: "pid_t \<Rightarrow> int + string"
  asprintf_ok :: "pid_t \<Rightarrow> bool"
  image_malloc_ok :: "pid_t \<Rightarrow> bool"
  nanotime_r :: "pid_t \<Rightarrow> int + timespec"
  proc_malloc_ok :: "pid_t \<Rightarrow> bool"
  pidbsdinfo_r :: "pid_t \<Rightarrow> int + (timespec \<times> pid_t)"
  pidcwd_r :: "pid_t \<Rightarrow> int + string"
  pid_open :: "pid_t \<Rightarrow> open_env"
  fork_strdup_ok :: bool
  exec_image_malloc_ok :: bool
  exec_open :: open_env
  realpath_r :: "int + string"
  exec_interp_malloc_ok :: bool
  exec_interp_open :: open_env
  exec_strdup_ok :: bool
  kill_r :: "pid_t \<Rightarrow> int option"

text \<open>The decimal digits of a natural number, for \<open>asprintf(&path, "<%i>", pid)\<close>.\<close>

fun digits :: "nat \<Rightarrow> string" where
  "digits n = (if n < 10 then [char_of (48 + n)] else digits (n div 10) @ [char_of (48 + n mod 10)])"

definition show_pid :: "pid_t \<Rightarrow> string" where
  "show_pid p = (if p < 0 then ''-'' @ digits (nat (- p)) else digits (nat p))"

text \<open>
  \<open>image_exec_from_pid\<close>: Inl is the return of NULL, with the \<open>errno\<close> left by the
  call that failed (\<open>ENOMEM\<close> for a failed allocation).
\<close>

definition image_exec_from_pid :: "os_env \<Rightarrow> pid_t \<Rightarrow> state \<Rightarrow> ((int + addr) \<times> state) option" where
  "image_exec_from_pid os p s =
     (case (case pidpath_r os p of
              Inr pth \<Rightarrow> Inr (pth, False)
            | Inl err \<Rightarrow>
                if err = ENOMEM then Inl ()
                else if \<not> asprintf_ok os p then Inl ()
                else Inr (''<'' @ show_pid p @ ''>'', True)) of
        Inl u \<Rightarrow> Some (Inl ENOMEM, s\<lparr>ooms := ooms s + 1\<rparr>)
      | Inr (pth, nopath) \<Rightarrow>
          (case image_exec_new (image_malloc_ok os p) pth s of
             (None, s1) \<Rightarrow> Some (Inl ENOMEM, s1)
           | (Some a, s1) \<Rightarrow>
               (case nanotime_r os p of
                  Inl err \<Rightarrow>
                    do {
                      s2 \<leftarrow> image_exec_free a s1;
                      Some (Inl err, s2)
                    }
                | Inr tv \<Rightarrow>
                    do {
                      s2 \<leftarrow> image_update a
                              (\<lambda>ei. ei\<lparr>hdr_tv := tv,
                                       flags := (if nopath then insert EIFLAG_NOPATH (flags ei)
                                                 else flags ei) \<union> {EIFLAG_PIDLOOKUP},
                                       image_exec_t.pid := p\<rparr>) s1;
                      Some (Inr a, s2)
                    })))"

text \<open>
  Lines 599-604: link the image of the process to the current image of the
  parent.
\<close>

definition link_parent :: "pid_t \<Rightarrow> pid_t \<Rightarrow> state \<Rightarrow> state option" where
  "link_parent p pp s =
     do {
       proc \<leftarrow> proctab s p;
       pproc \<leftarrow> proctab s pp;
       a \<leftarrow> image_exec proc;
       s1 \<leftarrow> image_update a (\<lambda>ei. ei\<lparr>prev := image_exec pproc\<rparr>) s;
       (case image_exec pproc of
          None \<Rightarrow> Some s1
        | Some pa \<Rightarrow> image_exec_ref pa s1)
     }"

text \<open>Lines 607-615: flag, take the reference of the process, submit.\<close>

definition finish_recovery :: "pid_t \<Rightarrow> bool \<Rightarrow> state \<Rightarrow> ((int + pid_t) \<times> state) option" where
  "finish_recovery p log_event s =
     do {
       proc \<leftarrow> proctab s p;
       a \<leftarrow> image_exec proc;
       s1 \<leftarrow> (if \<not> log_event \<or> p = 0
              then image_update a (\<lambda>ei. ei\<lparr>flags := insert EIFLAG_NOLOG (flags ei)\<rparr>) s
              else Some s);
       s2 \<leftarrow> image_exec_ref a s1;
       Some (Inr p, work_submit a s2)
     }"

text \<open>
  \<open>procmon_proc_from_pid\<close>.  The result is Inl with the \<open>errno\<close> of the failed
  call where the C function returns NULL, and the pid of the process otherwise.
  The recursion on the parent pid is bounded in C by the range of \<open>pid_t\<close>; over
  the integers it is partial.
\<close>

partial_function (option) procmon_proc_from_pid ::
  "os_env \<Rightarrow> pid_t \<Rightarrow> bool \<Rightarrow> timespec option \<Rightarrow> state \<Rightarrow> ((int + pid_t) \<times> state) option" where
  "procmon_proc_from_pid os p log_event tv s =
     (case proctab_find_or_create (proc_malloc_ok os p) p s of
        (None, s0) \<Rightarrow> Some (Inl ENOMEM, s0\<lparr>ooms := ooms s0 + 1\<rparr>)
      | (Some pr, s0) \<Rightarrow>
          (case pidbsdinfo_r os p of
             Inl err \<Rightarrow>
               do {
                 s1 \<leftarrow> proctab_remove p tv s0;
                 Some (Inl err, s1)
               }
           | Inr (ftv, ppid) \<Rightarrow>
               (case pidcwd_r os p of
                  Inl err \<Rightarrow>
                    do {
                      s1 \<leftarrow> proc_update p (\<lambda>pr. pr\<lparr>proc_t.fork_tv := ftv, proc_t.cwd := None\<rparr>) s0;
                      s2 \<leftarrow> proctab_remove p tv
                              (if err = ENOMEM then s1\<lparr>ooms := ooms s1 + 1\<rparr> else s1);
                      Some (Inl err, s2)
                    }
                | Inr c \<Rightarrow>
                    do {
                      s1 \<leftarrow> proc_update p (\<lambda>pr. pr\<lparr>proc_t.fork_tv := ftv, proc_t.cwd := Some c\<rparr>) s0;
                      proc \<leftarrow> proctab s1 p;
                      s2 \<leftarrow> (case image_exec proc of
                               None \<Rightarrow> Some s1
                             | Some old \<Rightarrow> image_exec_free old s1);
                      (r, s3) \<leftarrow> image_exec_from_pid os p s2;
                      (case r of
                         Inl err \<Rightarrow>
                           do {
                             s4 \<leftarrow> proc_update p (\<lambda>pr. pr\<lparr>image_exec := None\<rparr>) s3;
                             s5 \<leftarrow> proctab_remove p tv s4;
                             Some (Inl err, s5)
                           }
                       | Inr a \<Rightarrow>
                           do {
                             s4 \<leftarrow> proc_update p (\<lambda>pr. pr\<lparr>image_exec := Some a\<rparr>) s3;
                             s5 \<leftarrow> image_exec_open_at (pid_open os p) None a s4;
                             if ppid \<ge> 0 \<and> ppid \<noteq> p then
                               (case proctab_find ppid s5 of
                                  Some pproc \<Rightarrow>
                                    do {
                                      s6 \<leftarrow> link_parent p ppid s5;
                                      finish_recovery p log_event s6
                                    }
                                | None \<Rightarrow>
                                    do {
                                      (pr, s6) \<leftarrow> procmon_proc_from_pid os ppid log_event tv s5;
                                      (case pr of
                                         Inl err \<Rightarrow>
                                           if err = ENOMEM then
                                             do {
                                               s7 \<leftarrow> proctab_remove p tv s6;
                                               Some (Inl err, s7)
                                             }
                                           else finish_recovery p log_event s6
                                       | Inr pp \<Rightarrow>
                                           do {
                                             s7 \<leftarrow> link_parent p pp s6;
                                             finish_recovery p log_event s7
                                           })
                                    })
                             else finish_recovery p log_event s5
                           })
                    })))"

text \<open>
  The lookup of the subject that opens \<open>procmon_fork\<close> and \<open>procmon_exec\<close>:
  find the process, or recover it from the live pid.  The second argument
  counts a miss that is not due to memory (\<open>miss_forksubj\<close> or \<open>miss_execsubj\<close>).
\<close>

definition find_subject ::
  "os_env \<Rightarrow> (state \<Rightarrow> state) \<Rightarrow> pid_t \<Rightarrow> timespec \<Rightarrow> state \<Rightarrow> (pid_t option \<times> state) option" where
  "find_subject os count_miss p tv s =
     (case proctab_find p s of
        Some proc \<Rightarrow> Some (Some p, s)
      | None \<Rightarrow>
          do {
            (r, s1) \<leftarrow> procmon_proc_from_pid os p True (Some tv) s;
            (case r of
               Inl err \<Rightarrow> Some (None, if err \<noteq> ENOMEM then count_miss s1 else s1)
             | Inr pp \<Rightarrow> Some (Some pp, s1\<lparr>liveacq := liveacq s1 + 1\<rparr>))
          })"

section \<open>Audit events\<close>

text \<open>
  \<open>procmon_fork\<close>.  After the stale entry of the child pid is removed and the new
  one created, the parent is read through its pointer again (it is gone when the
  child pid is the parent's own).
\<close>

definition procmon_fork ::
  "os_env \<Rightarrow> timespec \<Rightarrow> audit_proc_t \<Rightarrow> pid_t \<Rightarrow> state \<Rightarrow> state option" where
  "procmon_fork os tv subj childpid s =
     do {
       (parent, s1) \<leftarrow> find_subject os (\<lambda>t. t\<lparr>miss_forksubj := miss_forksubj t + 1\<rparr>)
                          (audit_proc_t.pid subj) tv s;
       (case parent of
          None \<Rightarrow> Some s1
        | Some pp \<Rightarrow>
            do {
              s2 \<leftarrow> proctab_remove childpid (Some tv) s1;
              (child, s3) \<leftarrow> proctab_create (proc_malloc_ok os childpid) childpid s2;
              (case child of
                 None \<Rightarrow> Some (s3\<lparr>ooms := ooms s3 + 1\<rparr>)
               | Some c \<Rightarrow>
                   do {
                     s4 \<leftarrow> proc_update c (\<lambda>pr. pr\<lparr>proc_t.fork_tv := tv\<rparr>) s3;
                     pproc \<leftarrow> proctab s4 pp;
                     pcwd \<leftarrow> proc_t.cwd pproc;
                     if \<not> fork_strdup_ok os then
                       do {
                         s5 \<leftarrow> proctab_remove childpid (Some tv) s4;
                         Some (s5\<lparr>ooms := ooms s5 + 1\<rparr>)
                       }
                     else
                       do {
                         s5 \<leftarrow> proc_update c (\<lambda>pr. pr\<lparr>proc_t.cwd := Some pcwd\<rparr>) s4;
                         pproc1 \<leftarrow> proctab s5 pp;
                         pimg \<leftarrow> image_exec pproc1;
                         s6 \<leftarrow> proc_update c (\<lambda>pr. pr\<lparr>image_exec := Some pimg\<rparr>) s5;
                         image_exec_ref pimg s6
                       }
                   })
            })
     }"

text \<open>
  Lines 888-907 of \<open>procmon_exec\<close>: without an image from the prepq, a new image
  is made from the path of the audit record.  The result is None where the
  function returns (allocation failed).
\<close>

definition exec_image_fallback ::
  "os_env \<Rightarrow> string \<Rightarrow> addr option \<Rightarrow> state \<Rightarrow> addr option \<times> state" where
  "exec_image_fallback os imagepath img s =
     (case img of
        Some i \<Rightarrow> (Some i, s)
      | None \<Rightarrow> image_exec_new (exec_image_malloc_ok os) imagepath (s\<lparr>pqmiss := pqmiss s + 1\<rparr>))"

text \<open>
  Lines 914-973: for a script, the interpreter is the one found in the prepq or
  is made from \<open>argv[0]\<close>.  The result is None where the function gives up
  (counted in \<open>miss_execinterp\<close>, the script image freed), and otherwise the
  interpreter, which is NULL for an image that is not a script.
\<close>

definition exec_interp_fallback ::
  "os_env \<Rightarrow> pid_t \<Rightarrow> string list option \<Rightarrow> addr \<Rightarrow> addr option \<Rightarrow> state \<Rightarrow>
   (addr option option \<times> state) option" where
  "exec_interp_fallback os p av img interp s =
     do {
       ei \<leftarrow> heap s img;
       if EIFLAG_SHEBANG \<notin> flags ei then Some (Some interp, s)
       else
         do {
           (interp1, s1) \<leftarrow>
             (case interp of
                Some i \<Rightarrow> Some (Some (Some i), s)
              | None \<Rightarrow>
                  (case av of
                     None \<Rightarrow>
                       do {
                         s1 \<leftarrow> image_exec_free img
                                 (s\<lparr>pqmiss := pqmiss s + 1,
                                    miss_execinterp := miss_execinterp s + 1\<rparr>);
                         Some (None, s1)
                       }
                   | Some [] \<Rightarrow> None
                   | Some (a0 # rest) \<Rightarrow>
                       do {
                         proc \<leftarrow> proctab s p;
                         (i1, s1) \<leftarrow>
                           (if take 1 a0 = ''/'' \<or> proc_t.cwd proc \<noteq> None then
                              (case realpath_r os of
                                 Inl err \<Rightarrow>
                                   Some (None,
                                     s\<lparr>pqmiss := pqmiss s + 1,
                                       ooms := (if err = ENOMEM then ooms s + 1 else ooms s)\<rparr>)
                               | Inr rp \<Rightarrow>
                                   Some (image_exec_new (exec_interp_malloc_ok os) rp
                                           (s\<lparr>pqmiss := pqmiss s + 1\<rparr>)))
                            else Some (None, s\<lparr>pqmiss := pqmiss s + 1\<rparr>));
                         (case i1 of
                            None \<Rightarrow>
                              do {
                                s2 \<leftarrow> image_exec_free img
                                        (s1\<lparr>miss_execinterp := miss_execinterp s1 + 1\<rparr>);
                                Some (None, s2)
                              }
                          | Some i \<Rightarrow> Some (Some (Some i), s1))
                       }));
           (case interp1 of
              None \<Rightarrow> Some (None, s1)
            | Some None \<Rightarrow> None
            | Some (Some i) \<Rightarrow>
                do {
                  s2 \<leftarrow> image_exec_open_at (exec_interp_open os) None i s1;
                  Some (Some (Some i), s2)
                })
         }
     }"

text \<open>
  Lines 1009-1014: suppression is handed down from the previous image, or starts
  at an image that matches the ancestor sets.
\<close>

definition exec_propagate_nolog :: "config_t \<Rightarrow> addr \<Rightarrow> state \<Rightarrow> state option" where
  "exec_propagate_nolog config a s =
     do {
       ei \<leftarrow> heap s a;
       p \<leftarrow> prev ei;
       pei \<leftarrow> heap s p;
       if EIFLAG_NOLOG_KIDS \<in> flags pei
       then image_update a
              (\<lambda>ei. ei\<lparr>flags := flags ei \<union> {EIFLAG_NOLOG, EIFLAG_NOLOG_KIDS}\<rparr>) s
       else
         do {
           m \<leftarrow> image_exec_match_suppressions s a
                  (suppress_image_exec_by_ancestor_ident config)
                  (suppress_image_exec_by_ancestor_path config);
           if m
           then image_update a (\<lambda>ei. ei\<lparr>flags := insert EIFLAG_NOLOG_KIDS (flags ei)\<rparr>) s
           else Some s
         }
     }"

text \<open>
  Lines 975-1021 of \<open>procmon_exec\<close>, the splice: the image (for a script, the
  interpreter with the script linked to it) replaces the current image of the
  process and gets the previous one as \<open>prev\<close>; it is filled from the audit
  record, flagged for suppression, referenced and submitted.
\<close>

definition exec_splice ::
  "os_env \<Rightarrow> config_t \<Rightarrow> timespec \<Rightarrow> audit_proc_t \<Rightarrow> string list option \<Rightarrow>
   string list option \<Rightarrow> pid_t \<Rightarrow> addr \<Rightarrow> addr option \<Rightarrow> state \<Rightarrow> state option" where
  "exec_splice os config tv subj av ev p img interp s =
     do {
       proc \<leftarrow> proctab s p;
       ei \<leftarrow> heap s img;
       (new, s1) \<leftarrow>
         (if EIFLAG_SHEBANG \<in> flags ei then
            do {
              i \<leftarrow> interp;
              s1 \<leftarrow> image_update i (\<lambda>ie. ie\<lparr>script := Some img\<rparr>) s;
              Some (i, s1)
            }
          else Some (img, s));
       s2 \<leftarrow> proc_update p (\<lambda>pr. pr\<lparr>image_exec := Some new\<rparr>) s1;
       if Some new = image_exec proc then None
       else
         do {
           c \<leftarrow> proc_t.cwd proc;
           if \<not> exec_strdup_ok os then
             do {
               s3 \<leftarrow> image_exec_free new (s2\<lparr>ooms := ooms s2 + 1\<rparr>);
               s4 \<leftarrow> proc_update p (\<lambda>pr. pr\<lparr>image_exec := None\<rparr>) s3;
               (case image_exec proc of
                  None \<Rightarrow> Some s4
                | Some old \<Rightarrow> image_exec_free old s4)
             }
           else
             do {
               nei \<leftarrow> heap s2 new;
               if refs nei \<noteq> 1 then None
               else
                 do {
                   s3 \<leftarrow> image_update new
                           (\<lambda>ie. ie\<lparr>hdr_tv := tv,
                                    image_exec_t.fork_tv := proc_t.fork_tv proc,
                                    image_exec_t.pid := proc_t.pid proc,
                                    subject := subj, argv := av, envv := ev,
                                    image_exec_t.cwd := Some c,
                                    prev := image_exec proc\<rparr>) s2;
                   s4 \<leftarrow> exec_propagate_nolog config new s3;
                   s5 \<leftarrow> image_exec_ref new s4;
                   Some (work_submit new s5)
                 }
             }
         }
     }"

text \<open>
  \<open>procmon_exec\<close>: the subject (lines 850-870), the prepq lookup, the two
  fallbacks, \<open>image_exec_open\<close> on the image, and the splice.
\<close>

definition procmon_exec ::
  "extern_t \<Rightarrow> config_t \<Rightarrow> os_env \<Rightarrow> timespec \<Rightarrow> audit_proc_t \<Rightarrow> string \<Rightarrow>
   audit_attr_t option \<Rightarrow> string list option \<Rightarrow> string list option \<Rightarrow> state \<Rightarrow> state option" where
  "procmon_exec x config os tv subj imagepath attr av ev s =
     do {
       (procr, s1) \<leftarrow> find_subject os (\<lambda>t. t\<lparr>miss_execsubj := miss_execsubj t + 1\<rparr>)
                         (audit_proc_t.pid subj) tv s;
       (case procr of
          None \<Rightarrow> Some s1
        | Some p \<Rightarrow>
            do {
              (img, interp, s2) \<leftarrow> prepq_lookup x p imagepath attr av s1;
              (case exec_image_fallback os imagepath img s2 of
                 (None, s3) \<Rightarrow> if interp \<noteq> None then None else Some s3
               | (Some i, s3) \<Rightarrow>
                   do {
                     s4 \<leftarrow> image_exec_open_at (exec_open os) attr i s3;
                     (r, s5) \<leftarrow> exec_interp_fallback os p av i interp s4;
                     (case r of
                        None \<Rightarrow> Some s5
                      | Some interp1 \<Rightarrow> exec_splice os config tv subj av ev p i interp1 s5)
                   })
            })
     }"

text \<open>
  \<open>procmon_spawn\<close>: \<open>procmon_fork\<close>, then \<open>subject->pid = childpid\<close>, then
  \<open>procmon_exec\<close>.
\<close>

definition procmon_spawn ::
  "extern_t \<Rightarrow> config_t \<Rightarrow> os_env \<Rightarrow> timespec \<Rightarrow> audit_proc_t \<Rightarrow> pid_t \<Rightarrow> string \<Rightarrow>
   audit_attr_t option \<Rightarrow> string list option \<Rightarrow> string list option \<Rightarrow> state \<Rightarrow> state option" where
  "procmon_spawn x config os tv subj childpid imagepath attr av ev s =
     do {
       s1 \<leftarrow> procmon_fork os tv subj childpid s;
       procmon_exec x config os tv (subj\<lparr>audit_proc_t.pid := childpid\<rparr>) imagepath attr av ev s1
     }"

text \<open>
  Modelled from the spec: what the spec says of a spawn event, "equivalent to
  fork followed by exec targeting childpid": the fork event, then the exec event
  whose subject is the given subject with the pid of the child.
\<close>

definition spawn_spec ::
  "extern_t \<Rightarrow> config_t \<Rightarrow> os_env \<Rightarrow> timespec \<Rightarrow> audit_proc_t \<Rightarrow> pid_t \<Rightarrow> string \<Rightarrow>
   audit_attr_t option \<Rightarrow> string list option \<Rightarrow> string list option \<Rightarrow> state \<Rightarrow> state option" where
  "spawn_spec x config os tv subj childpid imagepath attr av ev s =
     (case procmon_fork os tv subj childpid s of
        None \<Rightarrow> None
      | Some after_fork \<Rightarrow>
          procmon_exec x config os tv
            \<lparr>audit_proc_t.pid = childpid, auid = auid subj, euid = euid subj, ruid = ruid subj,
             egid = egid subj, rgid = rgid subj, sid = sid subj\<rparr>
            imagepath attr av ev after_fork)"

definition procmon_exit :: "timespec \<Rightarrow> pid_t \<Rightarrow> state \<Rightarrow> state option" where
  "procmon_exit tv p s = proctab_remove p (Some tv) s"

text \<open>
  \<open>procmon_wait4\<close>.  The probe \<open>kill(pid, 0)\<close> is logged in \<open>probes\<close>.
\<close>

definition procmon_wait4 :: "os_env \<Rightarrow> timespec \<Rightarrow> pid_t \<Rightarrow> state \<Rightarrow> state option" where
  "procmon_wait4 os tv p s =
     (if p = - 1 \<or> p = 0 then Some s
      else
        (case kill_r os p of
           Some err \<Rightarrow>
             if err = ESRCH then procmon_exit tv p (s\<lparr>probes := probes s @ [p]\<rparr>)
             else Some (s\<lparr>probes := probes s @ [p]\<rparr>)
         | None \<Rightarrow> Some (s\<lparr>probes := probes s @ [p]\<rparr>)))"

text \<open>
  \<open>heap_shrinks h h'\<close>: every image of \<open>h'\<close> is an image of \<open>h\<close> at the same
  address, with at most another reference count.
\<close>

definition heap_shrinks :: "(addr \<rightharpoonup> image_exec_t) \<Rightarrow> (addr \<rightharpoonup> image_exec_t) \<Rightarrow> bool" where
  "heap_shrinks h h' =
     (\<forall>b ei'. h' b = Some ei' \<longrightarrow> (\<exists>ei. h b = Some ei \<and> ei' = ei\<lparr>refs := refs ei'\<rparr>))"

text \<open>
  \<open>flags_kept h h'\<close>: every image of \<open>h'\<close> is at the same address in \<open>h\<close>, with
  the same flags.
\<close>

definition flags_kept :: "(addr \<rightharpoonup> image_exec_t) \<Rightarrow> (addr \<rightharpoonup> image_exec_t) \<Rightarrow> bool" where
  "flags_kept h h' =
     (\<forall>b ei'. h' b = Some ei' \<longrightarrow> (\<exists>ei. h b = Some ei \<and> flags ei = flags ei'))"

text \<open>
  \<open>prev_kept_or_cut h h'\<close>: every image of \<open>h'\<close> is at the same address in \<open>h\<close>,
  and its \<open>prev\<close> link is the one it had there or NULL.
\<close>

definition prev_kept_or_cut :: "(addr \<rightharpoonup> image_exec_t) \<Rightarrow> (addr \<rightharpoonup> image_exec_t) \<Rightarrow> bool" where
  "prev_kept_or_cut h h' =
     (\<forall>b ei'. h' b = Some ei' \<longrightarrow>
        (\<exists>ei. h b = Some ei \<and> (prev ei' = prev ei \<or> prev ei' = None)))"

text \<open>
  \<open>links_same h h'\<close>: the two heaps hold images at the same addresses, with the
  same \<open>prev\<close> links and reference counts.
\<close>

definition links_same :: "(addr \<rightharpoonup> image_exec_t) \<Rightarrow> (addr \<rightharpoonup> image_exec_t) \<Rightarrow> bool" where
  "links_same h h' =
     (\<forall>b. map_option (\<lambda>ei. (prev ei, refs ei)) (h' b) =
          map_option (\<lambda>ei. (prev ei, refs ei)) (h b))"

text \<open>
  \<open>fields_kept h h'\<close>: every image of \<open>h'\<close> is at the same address in \<open>h\<close>, with
  the same path, flags, signature and script.
\<close>

definition fields_kept :: "(addr \<rightharpoonup> image_exec_t) \<Rightarrow> (addr \<rightharpoonup> image_exec_t) \<Rightarrow> bool" where
  "fields_kept h h' =
     (\<forall>b ei'. h' b = Some ei' \<longrightarrow>
        (\<exists>ei. h b = Some ei \<and> path ei' = path ei \<and> flags ei' = flags ei \<and>
           image_exec_t.codesign ei' = image_exec_t.codesign ei \<and> script ei' = script ei))"

section \<open>The other entry points, and runs of events\<close>

definition procmon_chdir ::
  "os_env \<Rightarrow> timespec \<Rightarrow> pid_t \<Rightarrow> string \<Rightarrow> state \<Rightarrow> state option" where
  "procmon_chdir os tv p pth s =
     do {
       (procr, s1) \<leftarrow> find_subject os (\<lambda>t. t\<lparr>miss_chdirsubj := miss_chdirsubj t + 1\<rparr>) p tv s;
       (case procr of
          None \<Rightarrow> Some s1
        | Some pp \<Rightarrow> proc_update pp (\<lambda>pr. pr\<lparr>proc_t.cwd := Some pth\<rparr>) s1)
     }"

text \<open>
  \<open>image_exec_by_pid\<close>: the image returned (NULL on a miss), and the state.
\<close>

definition image_exec_by_pid ::
  "os_env \<Rightarrow> pid_t \<Rightarrow> timespec \<Rightarrow> state \<Rightarrow> (addr option \<times> state) option" where
  "image_exec_by_pid os p tv s =
     do {
       (procr, s1) \<leftarrow> find_subject os (\<lambda>t. t\<lparr>miss_bypid := miss_bypid t + 1\<rparr>) p tv s;
       (case procr of
          None \<Rightarrow> Some (None, s1)
        | Some pp \<Rightarrow>
            do {
              proc \<leftarrow> proctab s1 pp;
              a \<leftarrow> image_exec proc;
              s2 \<leftarrow> image_exec_ref a s1;
              Some (Some a, s2)
            })
     }"

text \<open>\<open>procmon_getcwd\<close>: the directory returned (NULL on a miss), and the state.\<close>

definition procmon_getcwd ::
  "os_env \<Rightarrow> pid_t \<Rightarrow> timespec \<Rightarrow> state \<Rightarrow> (string option \<times> state) option" where
  "procmon_getcwd os p tv s =
     do {
       (procr, s1) \<leftarrow> find_subject os (\<lambda>t. t\<lparr>miss_getcwd := miss_getcwd t + 1\<rparr>) p tv s;
       (case procr of
          None \<Rightarrow> Some (None, s1)
        | Some pp \<Rightarrow>
            do {
              proc \<leftarrow> proctab s1 pp;
              Some (proc_t.cwd proc, s1)
            })
     }"

definition procmon_preloadpid :: "config_t \<Rightarrow> os_env \<Rightarrow> pid_t \<Rightarrow> state \<Rightarrow> state option" where
  "procmon_preloadpid config os p s =
     (case proctab_find p s of
        Some proc \<Rightarrow> Some s
      | None \<Rightarrow>
          map_option snd
            (procmon_proc_from_pid os p (\<not> suppress_image_exec_at_start config) None s))"

text \<open>
  The calls that reach procmon.c and touch images, each with what its external
  calls returned.  A spawn event is not listed: \<open>procmon_spawn\<close> handles it as a
  fork event followed by an exec event.
\<close>

datatype event =
  Ev_fork os_env timespec audit_proc_t pid_t
| Ev_exec os_env timespec audit_proc_t string "audit_attr_t option" "string list option"
    "string list option"
| Ev_exit timespec pid_t
| Ev_wait4 os_env timespec pid_t
| Ev_chdir os_env timespec pid_t string
| Ev_kern_preexec preexec_env timespec pid_t string
| Ev_work acq_env acq_env addr
| Ev_by_pid os_env pid_t timespec
| Ev_getcwd os_env pid_t timespec
| Ev_preloadpid os_env pid_t

fun step :: "extern_t \<Rightarrow> config_t \<Rightarrow> event \<Rightarrow> state \<Rightarrow> state option" where
  "step x config (Ev_fork os tv subj childpid) s = procmon_fork os tv subj childpid s"
| "step x config (Ev_exec os tv subj imagepath attr av ev) s =
     procmon_exec x config os tv subj imagepath attr av ev s"
| "step x config (Ev_exit tv p) s = procmon_exit tv p s"
| "step x config (Ev_wait4 os tv p) s = procmon_wait4 os tv p s"
| "step x config (Ev_chdir os tv p pth) s = procmon_chdir os tv p pth s"
| "step x config (Ev_kern_preexec e tm p imagepath) s =
     procmon_kern_preexec x config e tm p imagepath s"
| "step x config (Ev_work e1 e2 a) s = map_option snd (image_exec_work x config e1 e2 a s)"
| "step x config (Ev_by_pid os p tv) s = map_option snd (image_exec_by_pid os p tv s)"
| "step x config (Ev_getcwd os p tv) s = map_option snd (procmon_getcwd os p tv s)"
| "step x config (Ev_preloadpid os p) s = procmon_preloadpid config os p s"

text \<open>
  The allocator's invariant: every image on the heap is at an address below
  \<open>brk\<close>.
\<close>

definition wf_heap :: "state \<Rightarrow> bool" where
  "wf_heap s = (\<forall>a. heap s a \<noteq> None \<longrightarrow> a < brk s)"

text \<open>
  \<open>heap_evolves b0 h0 b h\<close>: from a heap \<open>h0\<close> with allocation mark \<open>b0\<close> to a later
  heap \<open>h\<close> with mark \<open>b\<close>, the mark has not gone back, all images are below the
  mark, and an image at an address below the old mark was there before and has
  kept the flags NOLOG and NOLOG_KIDS if it had them.
\<close>

definition heap_evolves ::
  "addr \<Rightarrow> (addr \<rightharpoonup> image_exec_t) \<Rightarrow> addr \<Rightarrow> (addr \<rightharpoonup> image_exec_t) \<Rightarrow> bool" where
  "heap_evolves b0 h0 b h =
     (b0 \<le> b \<and> (\<forall>a. h a \<noteq> None \<longrightarrow> a < b) \<and>
      (\<forall>a ei'. h a = Some ei' \<and> a < b0 \<longrightarrow>
         (\<exists>ei. h0 a = Some ei \<and>
            (EIFLAG_NOLOG_KIDS \<in> flags ei \<longrightarrow> EIFLAG_NOLOG_KIDS \<in> flags ei') \<and>
            (EIFLAG_NOLOG \<in> flags ei \<longrightarrow> EIFLAG_NOLOG \<in> flags ei'))))"

text \<open>
  \<open>exec_child x config s a s' b\<close>: an exec event, handled in state \<open>s\<close> for a
  process whose current image is \<open>a\<close>, leaves that process in state \<open>s'\<close> with
  another current image \<open>b\<close>.  \<open>exec_desc x config s a t b\<close>: image \<open>b\<close> in state
  \<open>t\<close> descends from image \<open>a\<close> in state \<open>s\<close> through exec events, with any
  events in between.
\<close>

definition exec_child :: "extern_t \<Rightarrow> config_t \<Rightarrow> state \<Rightarrow> addr \<Rightarrow> state \<Rightarrow> addr \<Rightarrow> bool" where
  "exec_child x config s a s' b =
     (\<exists>os tv subj imagepath attr av ev proc proc'.
        proctab s (audit_proc_t.pid subj) = Some proc \<and> image_exec proc = Some a \<and>
        procmon_exec x config os tv subj imagepath attr av ev s = Some s' \<and>
        proctab s' (audit_proc_t.pid subj) = Some proc' \<and> image_exec proc' = Some b \<and> b \<noteq> a)"

inductive exec_desc ::
  "extern_t \<Rightarrow> config_t \<Rightarrow> state \<Rightarrow> addr \<Rightarrow> state \<Rightarrow> addr \<Rightarrow> bool"
  for x :: extern_t and config :: config_t where
  child: "exec_child x config s a s' b \<Longrightarrow> exec_desc x config s a s' b"
| later: "exec_desc x config s a t b \<Longrightarrow> step x config e t = Some t' \<Longrightarrow>
          exec_desc x config s a t' b"
| grandchild: "exec_desc x config s a t b \<Longrightarrow> exec_child x config t b t' c \<Longrightarrow>
          exec_desc x config s a t' c"

section \<open>Concrete inputs\<close>

text \<open>Small concrete images, attributes and call results, used to run the
  definitions on explicit inputs.\<close>

definition ex_stat :: stat_attr_t where
  "ex_stat = \<lparr>stat_attr_t.mode = 493, stat_attr_t.uid = 0, stat_attr_t.gid = 0,
     stat_attr_t.dev = 1, stat_attr_t.ino = 42, size_st = 120000,
     mtime = \<lparr>tv_sec = 1000, tv_nsec = 0\<rparr>, ctime = \<lparr>tv_sec = 1000, tv_nsec = 0\<rparr>,
     btime = \<lparr>tv_sec = 900, tv_nsec = 0\<rparr>\<rparr>"

definition ex_image :: image_exec_t where
  "ex_image = \<lparr>path = ''/bin/ls'', fd = - 1, stat = zero_stat, flags = {}, hashes = 0,
     image_exec_t.codesign = None, argv = None, envv = None, image_exec_t.cwd = None,
     subject = zero_subject, image_exec_t.pid = 100, image_exec_t.fork_tv = zero_timespec,
     hdr_tv = zero_timespec, prev = None, script = None, pqttl = 0, refs = 1\<rparr>"

definition ex_attr :: audit_attr_t where
  "ex_attr = \<lparr>audit_attr_t.mode = 493, audit_attr_t.uid = 0, audit_attr_t.gid = 0,
     audit_attr_t.dev = 1, audit_attr_t.ino = 43\<rparr>"

definition ex_open_env :: open_env where
  "ex_open_env = \<lparr>open_r = 3, fdattr_r = Some ex_stat, pread_r = Some ''#!''\<rparr>"

definition ex_config :: config_t where
  "ex_config = \<lparr>ancestors = 1, kextlevel = 0, hflags = 0, config_t.codesign = True,
     suppress_image_exec_at_start = False, suppress_image_exec_by_ident = {},
     suppress_image_exec_by_path = {}, suppress_image_exec_by_ancestor_ident = {},
     suppress_image_exec_by_ancestor_path = {''/usr/bin/build-driver''}\<rparr>"

definition ex_extern :: extern_t where
  "ex_extern = \<lparr>MAXPQTTL = 2, KEXTLEVEL_HASH = 2, KEXTLEVEL_CSIG = 3,
     sys_basenamecmp = (\<lambda>p q. if p = q then 0 else 1)\<rparr>"

definition ex_codesign :: codesign_t where
  "ex_codesign = \<lparr>is_good = True, ident = Some ''com.apple.ls'', teamid = None\<rparr>"

definition ex_acq_env :: acq_env where
  "ex_acq_env = \<lparr>cachehash_get_r = None, hashes_fd_r = (0, 120000, 7),
     fdattr2_r = Some (ex_stat\<lparr>mtime := \<lparr>tv_sec = 1001, tv_nsec = 0\<rparr>\<rparr>),
     cachecsig_get_r = Inl 0, codesign_new_r = Inr ex_codesign,
     pathattr_r = Some (ex_stat\<lparr>stat_attr_t.ino := 77\<rparr>)\<rparr>"

definition ex_opened :: image_exec_t where
  "ex_opened = ex_image\<lparr>fd := 3, stat := ex_stat, flags := {EIFLAG_STAT}\<rparr>"

definition ex_hashed :: image_exec_t where
  "ex_hashed = ex_opened\<lparr>hashes := 7, flags := {EIFLAG_STAT, EIFLAG_HASHES}\<rparr>"

definition ex_open_env2 :: open_env where
  "ex_open_env2 = ex_open_env\<lparr>fdattr_r :=
     Some (ex_stat\<lparr>size_st := 5, mtime := \<lparr>tv_sec = 2000, tv_nsec = 0\<rparr>\<rparr>)\<rparr>"


definition ex_done :: image_exec_t where
  "ex_done = ex_hashed\<lparr>fd := - 1, flags := {EIFLAG_STAT, EIFLAG_HASHES, EIFLAG_DONE}\<rparr>"

definition ex_os :: os_env where
  "ex_os = \<lparr>pidpath_r = (\<lambda>p. Inl ESRCH), asprintf_ok = (\<lambda>p. True),
     image_malloc_ok = (\<lambda>p. True), nanotime_r = (\<lambda>p. Inr zero_timespec),
     proc_malloc_ok = (\<lambda>p. True), pidbsdinfo_r = (\<lambda>p. Inl ESRCH),
     pidcwd_r = (\<lambda>p. Inl ESRCH), pid_open = (\<lambda>p. ex_open_env),
     fork_strdup_ok = True, exec_image_malloc_ok = True, exec_open = ex_open_env,
     realpath_r = Inr ''/bin/sh'', exec_interp_malloc_ok = True,
     exec_interp_open = ex_open_env, exec_strdup_ok = True,
     kill_r = (\<lambda>p. if p = 500 then None else Some ESRCH)\<rparr>"

definition ex_tv :: timespec where
  "ex_tv = \<lparr>tv_sec = 2000, tv_nsec = 0\<rparr>"

definition ex_subject :: audit_proc_t where
  "ex_subject = zero_subject\<lparr>audit_proc_t.pid := 500\<rparr>"

text \<open>
  A state with one process, 500, whose current image (address 1) is a build
  driver flagged NOLOG_KIDS, and two images in the prepq: address 3, of another
  pid and one skip away from MAXPQTTL, and address 2, acquired for an exec of
  process 500.
\<close>

definition ex_state :: state where
  "ex_state =
     \<lparr>heap = [1 \<mapsto> ex_done\<lparr>path := ''/usr/bin/build-driver'', image_exec_t.pid := 500,
                             flags := {EIFLAG_STAT, EIFLAG_HASHES, EIFLAG_DONE,
                                       EIFLAG_NOLOG_KIDS}\<rparr>,
              2 \<mapsto> ex_done\<lparr>path := ''/usr/bin/cc'', image_exec_t.pid := 500\<rparr>,
              3 \<mapsto> ex_done\<lparr>path := ''/bin/true'', image_exec_t.pid := 300, pqttl := 1\<rparr>],
      brk = 4,
      proctab = [500 \<mapsto> \<lparr>proc_t.pid = 500, proc_t.fork_tv = zero_timespec,
                          proc_t.cwd = Some ''/tmp'', image_exec = Some 1\<rparr>],
      pqlist = [3, 2], pqsize = 2, pqlookup = 0, pqmiss = 0, pqdrop = 0, pqskip = 0,
      images = 3, liveacq = 0, miss_bypid = 0, miss_forksubj = 0, miss_execsubj = 0,
      miss_execinterp = 0, miss_chdirsubj = 0, miss_getcwd = 0, ooms = 0, workq = [],
      cache_ops = [], probes = []\<rparr>"

text \<open>
  A state whose heap holds a chain of three images, 10 with previous image 11
  with previous image 12, the first one held twice (by its process and by the
  worker), and the same state with the first image held once.
\<close>

definition ex_chain_state :: state where
  "ex_chain_state =
     ex_state\<lparr>heap := [10 \<mapsto> ex_done\<lparr>prev := Some 11, refs := 2\<rparr>,
                        11 \<mapsto> ex_done\<lparr>prev := Some 12\<rparr>,
                        12 \<mapsto> ex_done],
              brk := 13, proctab := Map.empty, pqlist := [], pqsize := 0, images := 3\<rparr>"

definition ex_chain_owned :: state where
  "ex_chain_owned =
     ex_chain_state\<lparr>heap := (heap ex_chain_state)(10 \<mapsto> ex_done\<lparr>prev := Some 11\<rparr>)\<rparr>"

text \<open>
  A state whose prepq holds a script acquired for process 200 (address 20) and
  then its interpreter (address 21).
\<close>

definition ex_script_state :: state where
  "ex_script_state =
     ex_state\<lparr>heap := [20 \<mapsto> ex_done\<lparr>path := ''/tmp/x.sh'', image_exec_t.pid := 200,
                                     flags := {EIFLAG_STAT, EIFLAG_SHEBANG, EIFLAG_HASHES,
                                               EIFLAG_DONE}\<rparr>,
                        21 \<mapsto> ex_done\<lparr>path := ''/usr/bin/awk'', image_exec_t.pid := 200\<rparr>],
              brk := 22, proctab := Map.empty, pqlist := [20, 21], images := 2\<rparr>"

definition ex_argv :: "string list option" where
  "ex_argv = Some [''/usr/bin/awk'', ''/tmp/x.sh'', ''a'', ''b'']"

section \<open>Releasing images\<close>

text \<open>
  \<open>image_exec_free\<close> changes the heap and the image counter only, and in the heap
  it changes reference counts and removes images; it never alters another field
  of an image.
\<close>

lemma heap_shrinks_refl: "heap_shrinks h h"
  by (simp add: heap_shrinks_def)

lemma heap_shrinks_trans:
  assumes "heap_shrinks h1 h2" and "heap_shrinks h2 h3"
  shows "heap_shrinks h1 h3"
  unfolding heap_shrinks_def
proof (intro allI impI)
  fix b ei3
  assume "h3 b = Some ei3"
  with assms(2) obtain ei2 where 2: "h2 b = Some ei2" "ei3 = ei2\<lparr>refs := refs ei3\<rparr>"
    unfolding heap_shrinks_def by blast
  with assms(1) obtain ei1 where 1: "h1 b = Some ei1" "ei2 = ei1\<lparr>refs := refs ei2\<rparr>"
    unfolding heap_shrinks_def by blast
  have "ei3 = ei1\<lparr>refs := refs ei2\<rparr>\<lparr>refs := refs ei3\<rparr>"
    using 1(2) 2(2) by simp
  then have "ei3 = ei1\<lparr>refs := refs ei3\<rparr>" by simp
  with 1(1) show "\<exists>ei. h1 b = Some ei \<and> ei3 = ei\<lparr>refs := refs ei3\<rparr>" by blast
qed

lemma heap_shrinks_refs: "h a = Some ei \<Longrightarrow> heap_shrinks h (h(a \<mapsto> ei\<lparr>refs := r\<rparr>))"
  by (simp add: heap_shrinks_def)

lemma heap_shrinks_del: "heap_shrinks h (h(a := None))"
  by (simp add: heap_shrinks_def)

lemma image_exec_free_frame:
  assumes "image_exec_free a s = Some s'"
  shows "heap_shrinks (heap s) (heap s') \<and> s' = s\<lparr>heap := heap s', images := images s'\<rparr>"
proof (rule image_exec_free.raw_induct
    [where P = "\<lambda>a s s'. heap_shrinks (heap s) (heap s') \<and>
                         s' = s\<lparr>heap := heap s', images := images s'\<rparr>", OF _ assms])
  fix free :: "addr \<Rightarrow> state \<Rightarrow> state option" and a s s'
  assume IH: "\<And>a s y. free a s = Some y \<Longrightarrow>
      heap_shrinks (heap s) (heap y) \<and> y = s\<lparr>heap := heap y, images := images y\<rparr>"
  assume body: "(case heap s a of
        None \<Rightarrow> None
      | Some img \<Rightarrow>
          if refs img - 1 > 0
          then Some (s\<lparr>heap := (heap s)(a \<mapsto> img\<lparr>refs := refs img - 1\<rparr>)\<rparr>)
          else do {
            s1 \<leftarrow> (case script img of
                     Some sc \<Rightarrow>
                       free sc (s\<lparr>heap := (heap s)(a \<mapsto> img\<lparr>refs := refs img - 1\<rparr>)\<rparr>)
                   | None \<Rightarrow> Some (s\<lparr>heap := (heap s)(a \<mapsto> img\<lparr>refs := refs img - 1\<rparr>)\<rparr>));
            s2 \<leftarrow> (case heap s1 a of
                     None \<Rightarrow> None
                   | Some img1 \<Rightarrow>
                       (case prev img1 of
                          Some p \<Rightarrow> free p s1
                        | None \<Rightarrow> Some s1));
            (case heap s2 a of
               None \<Rightarrow> None
             | Some img2 \<Rightarrow> Some (s2\<lparr>heap := (heap s2)(a := None), images := images s2 - 1\<rparr>))
          }) = Some s'"
  from body obtain img where img: "heap s a = Some img"
    by (auto split: option.splits)
  let ?s0 = "s\<lparr>heap := (heap s)(a \<mapsto> img\<lparr>refs := refs img - 1\<rparr>)\<rparr>"
  have f0: "heap_shrinks (heap s) (heap ?s0)"
    using heap_shrinks_refs [of "heap s" a img] img by simp
  show "heap_shrinks (heap s) (heap s') \<and> s' = s\<lparr>heap := heap s', images := images s'\<rparr>"
  proof (cases "0 < refs img - 1")
    case True
    with body img have e: "s' = ?s0" by simp
    show ?thesis unfolding e using f0 by simp
  next
    case False
    with body img have b: "(case script img of None \<Rightarrow> Some ?s0 | Some sc \<Rightarrow> free sc ?s0) \<bind>
        (\<lambda>s1. (case heap s1 a of None \<Rightarrow> None
               | Some img1 \<Rightarrow> (case prev img1 of None \<Rightarrow> Some s1 | Some p \<Rightarrow> free p s1)) \<bind>
              (\<lambda>s2. case heap s2 a of None \<Rightarrow> None
                    | Some img2 \<Rightarrow>
                        Some (s2\<lparr>heap := (heap s2)(a := None), images := images s2 - 1\<rparr>))) = Some s'"
      by simp
    then obtain s1 where
      s1: "(case script img of None \<Rightarrow> Some ?s0 | Some sc \<Rightarrow> free sc ?s0) = Some s1" and
      b1: "(case heap s1 a of None \<Rightarrow> None
            | Some img1 \<Rightarrow> (case prev img1 of None \<Rightarrow> Some s1 | Some p \<Rightarrow> free p s1)) \<bind>
              (\<lambda>s2. case heap s2 a of None \<Rightarrow> None
                    | Some img2 \<Rightarrow>
                        Some (s2\<lparr>heap := (heap s2)(a := None), images := images s2 - 1\<rparr>)) = Some s'"
      unfolding bind_eq_Some_conv by blast
    then obtain s2 where
      s2: "(case heap s1 a of None \<Rightarrow> None
            | Some img1 \<Rightarrow> (case prev img1 of None \<Rightarrow> Some s1 | Some p \<Rightarrow> free p s1)) = Some s2" and
      b2: "(case heap s2 a of None \<Rightarrow> None
            | Some img2 \<Rightarrow>
                Some (s2\<lparr>heap := (heap s2)(a := None), images := images s2 - 1\<rparr>)) = Some s'"
      unfolding bind_eq_Some_conv by blast
    from b2 obtain img2 where
      s3: "heap s2 a = Some img2" "s' = s2\<lparr>heap := (heap s2)(a := None), images := images s2 - 1\<rparr>"
      by (cases "heap s2 a") auto
    have f1: "heap_shrinks (heap ?s0) (heap s1) \<and> s1 = ?s0\<lparr>heap := heap s1, images := images s1\<rparr>"
    proof (cases "script img")
      case None
      with s1 have "s1 = ?s0" by simp
      then show ?thesis by (simp add: heap_shrinks_refl)
    next
      case (Some sc)
      with s1 have "free sc ?s0 = Some s1" by simp
      from IH [OF this] show ?thesis .
    qed
    have f2: "heap_shrinks (heap s1) (heap s2) \<and> s2 = s1\<lparr>heap := heap s2, images := images s2\<rparr>"
    proof (cases "heap s1 a")
      case None
      with s2 show ?thesis by simp
    next
      case (Some img1)
      show ?thesis
      proof (cases "prev img1")
        case None
        with s2 Some have "s2 = s1" by simp
        then show ?thesis by (simp add: heap_shrinks_refl)
      next
        case (Some p)
        with s2 \<open>heap s1 a = Some img1\<close> have "free p s1 = Some s2" by simp
        from IH [OF this] show ?thesis .
      qed
    qed
    have "heap_shrinks (heap s) (heap s')"
      using f0 f1 f2 s3(2) heap_shrinks_del [of "heap s2" a]
      by (auto intro: heap_shrinks_trans)
    moreover have "s' = s\<lparr>heap := heap s', images := images s'\<rparr>"
    proof -
      from f1 have "s1 = ?s0\<lparr>heap := heap s1, images := images s1\<rparr>" by simp
      also have "\<dots> = s\<lparr>heap := heap s1, images := images s1\<rparr>" by simp
      finally have e1: "s1 = s\<lparr>heap := heap s1, images := images s1\<rparr>" .
      from f2 have "s2 = s1\<lparr>heap := heap s2, images := images s2\<rparr>" by simp
      also have "\<dots> = s\<lparr>heap := heap s1, images := images s1\<rparr>\<lparr>heap := heap s2, images := images s2\<rparr>"
        using e1 by simp
      also have "\<dots> = s\<lparr>heap := heap s2, images := images s2\<rparr>" by simp
      finally have e2: "s2 = s\<lparr>heap := heap s2, images := images s2\<rparr>" .
      have "s' = s2\<lparr>heap := (heap s2)(a := None), images := images s2 - 1\<rparr>" by (rule s3(2))
      also have "\<dots> = s\<lparr>heap := heap s2, images := images s2\<rparr>\<lparr>heap := (heap s2)(a := None), images := images s2 - 1\<rparr>"
        using e2 by simp
      also have "\<dots> = s\<lparr>heap := (heap s2)(a := None), images := images s2 - 1\<rparr>" by simp
      finally show ?thesis by simp
    qed
    ultimately show ?thesis by simp
  qed
qed


section \<open>Reference-counted heaps\<close>

lemma holds_pos:
  "holds h D a b \<noteq> 0 \<longleftrightarrow> (\<exists>ei l. h a = Some ei \<and> link_of l ei = Some b \<and> (a, l) \<notin> D)"
proof
  assume "holds h D a b \<noteq> 0"
  then obtain ei where e: "h a = Some ei"
    and "prev ei = Some b \<and> (a, Prev) \<notin> D \<or> script ei = Some b \<and> (a, Script) \<notin> D"
    by (cases "h a") (auto simp: holds_def split: if_splits)
  then have "link_of Prev ei = Some b \<and> (a, Prev) \<notin> D \<or>
             link_of Script ei = Some b \<and> (a, Script) \<notin> D"
    by (simp add: link_of_def)
  with e show "\<exists>ei l. h a = Some ei \<and> link_of l ei = Some b \<and> (a, l) \<notin> D" by blast
next
  assume "\<exists>ei l. h a = Some ei \<and> link_of l ei = Some b \<and> (a, l) \<notin> D"
  then obtain ei l where "h a = Some ei" "link_of l ei = Some b" "(a, l) \<notin> D" by blast
  then show "holds h D a b \<noteq> 0"
    by (cases l) (simp_all add: holds_def link_of_def)
qed

lemma held_by_mono:
  "(\<And>a. a < n \<Longrightarrow> holds h' D' a b \<le> holds h D a b) \<Longrightarrow> held_by h' D' n b \<le> held_by h D n b"
proof (induction n)
  case 0
  then show ?case by simp
next
  case (Suc n)
  have "held_by h' D' n b \<le> held_by h D n b" using Suc by simp
  moreover have "holds h' D' n b \<le> holds h D n b" using Suc.prems by simp
  ultimately show ?case by simp
qed

lemma held_by_cong:
  "(\<And>a. a < n \<Longrightarrow> holds h' D' a b = holds h D a b) \<Longrightarrow> held_by h' D' n b = held_by h D n b"
  by (induction n) simp_all

lemma holds_le_held_by: "a < n \<Longrightarrow> holds h D a b \<le> held_by h D n b"
proof (induction n)
  case 0
  then show ?case by simp
next
  case (Suc n)
  then show ?case by (cases "a = n") auto
qed

lemma held_by_dec:
  assumes "c < n" and "holds h' D' c b < holds h D c b"
    and "\<And>a. a < n \<Longrightarrow> holds h' D' a b \<le> holds h D a b"
  shows "held_by h' D' n b < held_by h D n b"
  using assms
proof (induction n)
  case 0
  then show ?case by simp
next
  case (Suc n)
  show ?case
  proof (cases "c = n")
    case True
    have "held_by h' D' n b \<le> held_by h D n b"
      using Suc.prems(3) by (intro held_by_mono) simp
    with True Suc.prems(2) show ?thesis by simp
  next
    case False
    with Suc.prems(1) have "c < n" by simp
    from Suc.IH [OF this Suc.prems(2)] Suc.prems(3)
    have "held_by h' D' n b < held_by h D n b" by simp
    moreover have "holds h' D' n b \<le> holds h D n b" using Suc.prems(3) by simp
    ultimately show ?thesis by simp
  qed
qed


lemma holds_D_mono: "D \<subseteq> D' \<Longrightarrow> holds h D' a b \<le> holds h D a b"
  by (cases "h a") (auto simp: holds_def)

lemma refs_ok_mono:
  assumes "refs_ok rk h D n" and "D \<subseteq> D'"
  shows "refs_ok rk h D' n"
proof -
  have "held_by h D' n b \<le> held_by h D n b" for b
    by (intro held_by_mono holds_D_mono assms(2))
  moreover have "\<forall>b ei. h b = Some ei \<longrightarrow> held_by h D n b \<le> unat (refs ei)"
    using assms(1) by (simp add: refs_ok_def)
  ultimately have c: "\<forall>b ei. h b = Some ei \<longrightarrow> held_by h D' n b \<le> unat (refs ei)"
    using le_trans by blast
  have l: "\<forall>a ei l b. h a = Some ei \<and> link_of l ei = Some b \<and> (a, l) \<notin> D' \<longrightarrow>
         rk b < rk a \<and> h b \<noteq> None"
    using assms unfolding refs_ok_def by blast
  have "\<forall>a. h a \<noteq> None \<longrightarrow> a < n" using assms(1) by (simp add: refs_ok_def)
  with c l show ?thesis unfolding refs_ok_def by blast
qed

lemma holds_upd_links:
  assumes "h b = Some bi" and "prev bi' = prev bi" and "script bi' = script bi"
  shows "holds (h(b \<mapsto> bi')) D a e = holds h D a e"
  using assms by (simp add: holds_def)

text \<open>Changing an image without touching its links or its reference count.\<close>

lemma refs_ok_upd:
  assumes "refs_ok rk h D n" and "h b = Some bi"
    and "prev bi' = prev bi" and "script bi' = script bi" and "refs bi' = refs bi"
  shows "refs_ok rk (h(b \<mapsto> bi')) D n"
proof -
  let ?h = "h(b \<mapsto> bi')"
  have hb: "held_by ?h D n e = held_by h D n e" for e
    by (rule held_by_cong)
       (rule holds_upd_links [where h = h and b = b and bi = bi and bi' = bi', OF assms(2,3,4)])
  have lk: "link_of l bi' = link_of l bi" for l
    using assms(3,4) by (cases l) (simp_all add: link_of_def)
  have 1: "\<forall>a. ?h a \<noteq> None \<longrightarrow> a < n"
    using assms(1,2) by (auto simp: refs_ok_def)
  have 2: "\<forall>a ei l e. ?h a = Some ei \<and> link_of l ei = Some e \<and> (a, l) \<notin> D \<longrightarrow>
         rk e < rk a \<and> ?h e \<noteq> None"
  proof (intro allI impI)
    fix a ei l e
    assume q: "?h a = Some ei \<and> link_of l ei = Some e \<and> (a, l) \<notin> D"
    then have "\<exists>ei0. h a = Some ei0 \<and> link_of l ei0 = Some e"
      using assms(2) lk by (cases "a = b") auto
    with q assms(1) have "rk e < rk a \<and> h e \<noteq> None"
      unfolding refs_ok_def by blast
    then show "rk e < rk a \<and> ?h e \<noteq> None" by simp
  qed
  have 3: "\<forall>e ei. ?h e = Some ei \<longrightarrow> held_by ?h D n e \<le> unat (refs ei)"
  proof (intro allI impI)
    fix e ei
    assume q: "?h e = Some ei"
    then have "\<exists>ei0. h e = Some ei0 \<and> refs ei0 = refs ei"
      using assms(2,5) by (cases "e = b") auto
    with assms(1) have "held_by h D n e \<le> unat (refs ei)"
      unfolding refs_ok_def by force
    then show "held_by ?h D n e \<le> unat (refs ei)" by (simp only: hb)
  qed
  from 1 2 3 show ?thesis unfolding refs_ok_def by blast
qed

text \<open>
  Following a link that is not spent: the target is on the heap with a reference
  count that is not zero, and with the count decremented and the link spent the
  heap is reference counted again.
\<close>

lemma refs_ok_release:
  assumes "refs_ok rk h D n" and "h c = Some ci" and "link_of l ci = Some b" and "(c, l) \<notin> D"
    and "h b = Some bi"
  shows "refs bi \<noteq> 0 \<and> refs_ok rk (h(b \<mapsto> bi\<lparr>refs := refs bi - 1\<rparr>)) (insert (c, l) D) n \<and>
         held_by (h(b \<mapsto> bi\<lparr>refs := refs bi - 1\<rparr>)) (insert (c, l) D) n b \<le> unat (refs bi - 1)"
proof -
  let ?bi = "bi\<lparr>refs := refs bi - 1\<rparr>"
  let ?h = "h(b \<mapsto> ?bi)"
  let ?D = "insert (c, l) D"
  have cn: "c < n" using assms(1,2) by (auto simp: refs_ok_def)
  have same: "holds ?h D' a e = holds h D' a e" for D' a e
    by (rule holds_upd_links [where h = h and b = b and bi = bi, OF assms(5)]) simp_all
  have le: "holds ?h ?D a e \<le> holds h D a e" for a e
    unfolding same by (rule holds_D_mono) auto
  have lt: "holds ?h ?D c b < holds h D c b"
    unfolding same using assms(2,3,4)
    by (cases l) (auto simp: holds_def link_of_def)
  have dec: "held_by ?h ?D n b < held_by h D n b"
    by (rule held_by_dec [OF cn lt le])
  have bound: "held_by h D n b \<le> unat (refs bi)"
    using assms(1,5) by (simp add: refs_ok_def)
  from dec bound have pos: "0 < unat (refs bi)" by simp
  then have nz: "refs bi \<noteq> 0" by auto
  have um: "unat (refs bi - 1) = unat (refs bi) - 1"
    by (rule unat_minus_one [OF nz])
  from dec bound um have nb: "held_by ?h ?D n b \<le> unat (refs bi - 1)" by simp
  have lk: "link_of l' ?bi = link_of l' bi" for l'
    by (cases l') (simp_all add: link_of_def)
  have 1: "\<forall>a. ?h a \<noteq> None \<longrightarrow> a < n"
    using assms(1,5) by (auto simp: refs_ok_def)
  have 2: "\<forall>a ei l' e. ?h a = Some ei \<and> link_of l' ei = Some e \<and> (a, l') \<notin> ?D \<longrightarrow>
         rk e < rk a \<and> ?h e \<noteq> None"
  proof (intro allI impI)
    fix a ei l' e
    assume q: "?h a = Some ei \<and> link_of l' ei = Some e \<and> (a, l') \<notin> ?D"
    then have "\<exists>ei0. h a = Some ei0 \<and> link_of l' ei0 = Some e"
      using assms(5) lk by (cases "a = b") auto
    moreover from q have "(a, l') \<notin> D" by simp
    ultimately have "rk e < rk a \<and> h e \<noteq> None"
      using assms(1) unfolding refs_ok_def by blast
    then show "rk e < rk a \<and> ?h e \<noteq> None" by simp
  qed
  have 3: "\<forall>e ei. ?h e = Some ei \<longrightarrow> held_by ?h ?D n e \<le> unat (refs ei)"
  proof (intro allI impI)
    fix e ei
    assume q: "?h e = Some ei"
    show "held_by ?h ?D n e \<le> unat (refs ei)"
    proof (cases "e = b")
      case True
      with q nb show ?thesis by auto
    next
      case False
      with q have "h e = Some ei" by simp
      with assms(1) have "held_by h D n e \<le> unat (refs ei)"
        by (simp add: refs_ok_def)
      moreover have "held_by ?h ?D n e \<le> held_by h D n e"
        by (intro held_by_mono le)
      ultimately show ?thesis by simp
    qed
  qed
  from 1 2 3 have "refs_ok rk ?h ?D n" unfolding refs_ok_def by blast
  with nz nb show ?thesis by blast
qed

text \<open>
  Releasing an image whose reference count is zero and whose own links are
  spent.
\<close>

lemma refs_ok_delete:
  assumes "refs_ok rk h (insert (b, Prev) (insert (b, Script) D)) n"
    and "h b = Some bi" and "refs bi = 0"
  shows "refs_ok rk (h(b := None)) D n"
proof -
  let ?D = "insert (b, Prev) (insert (b, Script) D)"
  let ?h = "h(b := None)"
  have same: "holds ?h D a e = holds h ?D a e" for a e
    by (cases "a = b") (auto simp: holds_def split: option.splits)
  have hb: "held_by ?h D n e = held_by h ?D n e" for e
    by (intro held_by_cong same)
  have "held_by h ?D n b \<le> unat (refs bi)"
    using assms(1,2) unfolding refs_ok_def by blast
  with assms(3) have zero: "held_by h ?D n b = 0" by simp
  have nob: "holds h ?D a b = 0" if "a < n" for a
    using holds_le_held_by [OF that, of h ?D b] zero by simp
  have 1: "\<forall>a. ?h a \<noteq> None \<longrightarrow> a < n"
    using assms(1) by (auto simp: refs_ok_def)
  have 2: "\<forall>a ei l e. ?h a = Some ei \<and> link_of l ei = Some e \<and> (a, l) \<notin> D \<longrightarrow>
         rk e < rk a \<and> ?h e \<noteq> None"
  proof (intro allI impI)
    fix a ei l e
    assume q: "?h a = Some ei \<and> link_of l ei = Some e \<and> (a, l) \<notin> D"
    then have ab: "a \<noteq> b" by auto
    with q have q': "h a = Some ei" "link_of l ei = Some e" "(a, l) \<notin> ?D" by auto
    with assms(1) have r: "rk e < rk a \<and> h e \<noteq> None"
      unfolding refs_ok_def by blast
    from q' have "holds h ?D a e \<noteq> 0" unfolding holds_pos by blast
    moreover from q' assms(1) have "a < n" by (auto simp: refs_ok_def)
    ultimately have "e \<noteq> b" using nob by auto
    with r show "rk e < rk a \<and> ?h e \<noteq> None" by simp
  qed
  have 3: "\<forall>e ei. ?h e = Some ei \<longrightarrow> held_by ?h D n e \<le> unat (refs ei)"
  proof (intro allI impI)
    fix e ei
    assume q: "?h e = Some ei"
    then have "h e = Some ei" by (cases "e = b") auto
    with assms(1) have "held_by h ?D n e \<le> unat (refs ei)"
      by (simp add: refs_ok_def)
    then show "held_by ?h D n e \<le> unat (refs ei)" by (simp only: hb)
  qed
  from 1 2 3 show ?thesis unfolding refs_ok_def by blast
qed

lemma free_shared:
  "heap s b = Some bi \<Longrightarrow> refs bi - 1 > 0 \<Longrightarrow>
   image_exec_free b s = Some (s\<lparr>heap := (heap s)(b \<mapsto> bi\<lparr>refs := refs bi - 1\<rparr>)\<rparr>)"
  by (subst image_exec_free.simps) simp

lemma free_last:
  assumes "heap s b = Some bi" and "\<not> refs bi - 1 > 0"
    and "(case script bi of
            Some sc \<Rightarrow> image_exec_free sc (s\<lparr>heap := (heap s)(b \<mapsto> bi\<lparr>refs := refs bi - 1\<rparr>)\<rparr>)
          | None \<Rightarrow> Some (s\<lparr>heap := (heap s)(b \<mapsto> bi\<lparr>refs := refs bi - 1\<rparr>)\<rparr>)) = Some s1"
    and "heap s1 b = Some bi1"
    and "(case prev bi1 of Some p \<Rightarrow> image_exec_free p s1 | None \<Rightarrow> Some s1) = Some s2"
    and "heap s2 b = Some bi2"
  shows "image_exec_free b s = Some (s2\<lparr>heap := (heap s2)(b := None), images := images s2 - 1\<rparr>)"
  by (subst image_exec_free.simps) (simp add: assms)

text \<open>
  On a reference-counted heap, releasing the reference that a link stands for
  ends well: \<open>image_exec_free\<close> returns, the heap is reference counted with that
  link spent, and no image of higher rank than the target is touched.
\<close>

lemma free_total:
  assumes "refs_ok rk (heap s) D n"
    and "heap s c = Some ci" and "link_of l ci = Some b" and "(c, l) \<notin> D"
    and "\<forall>c' l'. (c', l') \<in> D \<longrightarrow> rk b < rk c'"
  shows "\<exists>s'. image_exec_free b s = Some s' \<and> refs_ok rk (heap s') (insert (c, l) D) n \<and>
              (\<forall>a. rk b < rk a \<longrightarrow> heap s' a = heap s a)"
  using assms
proof (induction "rk b" arbitrary: b s D c l ci rule: less_induct)
  case less
  note ok = less.prems(1)
  from ok less.prems(2,3,4) have bc: "rk b < rk c" and "heap s b \<noteq> None"
    unfolding refs_ok_def by blast+
  then obtain bi where bi: "heap s b = Some bi" by auto
  let ?bi = "bi\<lparr>refs := refs bi - 1\<rparr>"
  let ?s0 = "s\<lparr>heap := (heap s)(b \<mapsto> ?bi)\<rparr>"
  let ?D0 = "insert (c, l) D"
  from refs_ok_release [OF ok less.prems(2,3,4) bi]
  have nz: "refs bi \<noteq> 0" and ok0: "refs_ok rk (heap ?s0) ?D0 n" by simp_all
  have D0: "\<forall>c' l'. (c', l') \<in> ?D0 \<longrightarrow> rk b < rk c'"
    using less.prems(5) bc by auto
  show ?case
  proof (cases "refs bi - 1 > 0")
    case True
    have "image_exec_free b s = Some ?s0" by (rule free_shared [OF bi True])
    moreover have "\<forall>a. rk b < rk a \<longrightarrow> heap ?s0 a = heap s a" by auto
    ultimately show ?thesis using ok0 by blast
  next
    case False
    then have z: "refs ?bi = 0" by (simp add: word_greater_zero_iff)
    have b0: "heap ?s0 b = Some ?bi" by simp
    let ?D1 = "insert (b, Script) ?D0"
    have "\<exists>s1. (case script bi of Some sc \<Rightarrow> image_exec_free sc ?s0 | None \<Rightarrow> Some ?s0) = Some s1 \<and>
            refs_ok rk (heap s1) ?D1 n \<and> (\<forall>a. rk b \<le> rk a \<longrightarrow> heap s1 a = heap ?s0 a)"
    proof (cases "script bi")
      case None
      have "refs_ok rk (heap ?s0) ?D1 n" by (rule refs_ok_mono [OF ok0]) auto
      with None show ?thesis by simp
    next
      case (Some sc)
      have lk: "link_of Script ?bi = Some sc" using Some by (simp add: link_of_def)
      have nd: "(b, Script) \<notin> ?D0" using D0 by auto
      from ok0 b0 lk nd have r: "rk sc < rk b" unfolding refs_ok_def by blast
      have Dsc: "\<forall>c' l'. (c', l') \<in> ?D0 \<longrightarrow> rk sc < rk c'"
        using D0 r by (meson less_trans)
      from less.hyps [OF r ok0 b0 lk nd Dsc] obtain s1 where
        "image_exec_free sc ?s0 = Some s1" "refs_ok rk (heap s1) ?D1 n"
        "\<forall>a. rk sc < rk a \<longrightarrow> heap s1 a = heap ?s0 a"
        by blast
      moreover from this(3) r have "\<forall>a. rk b \<le> rk a \<longrightarrow> heap s1 a = heap ?s0 a"
        by (meson less_le_trans)
      ultimately show ?thesis using Some by simp
    qed
    then obtain s1 where
      e1: "(case script bi of Some sc \<Rightarrow> image_exec_free sc ?s0 | None \<Rightarrow> Some ?s0) = Some s1" and
      ok1: "refs_ok rk (heap s1) ?D1 n" and
      f1: "\<forall>a. rk b \<le> rk a \<longrightarrow> heap s1 a = heap ?s0 a"
      by blast
    from f1 b0 have b1: "heap s1 b = Some ?bi" by simp
    let ?D2 = "insert (b, Prev) ?D1"
    have "\<exists>s2. (case prev ?bi of Some p \<Rightarrow> image_exec_free p s1 | None \<Rightarrow> Some s1) = Some s2 \<and>
            refs_ok rk (heap s2) ?D2 n \<and> (\<forall>a. rk b \<le> rk a \<longrightarrow> heap s2 a = heap s1 a)"
    proof (cases "prev bi")
      case None
      have "refs_ok rk (heap s1) ?D2 n" by (rule refs_ok_mono [OF ok1]) auto
      with None show ?thesis by simp
    next
      case (Some p)
      have lk: "link_of Prev ?bi = Some p" using Some by (simp add: link_of_def)
      have nd: "(b, Prev) \<notin> ?D1" using D0 by auto
      from ok1 b1 lk nd have r: "rk p < rk b" unfolding refs_ok_def by blast
      have Dp: "\<forall>c' l'. (c', l') \<in> ?D1 \<longrightarrow> rk p < rk c'"
        using D0 r by (auto intro: less_trans)
      from less.hyps [OF r ok1 b1 lk nd Dp] obtain s2 where
        "image_exec_free p s1 = Some s2" "refs_ok rk (heap s2) ?D2 n"
        "\<forall>a. rk p < rk a \<longrightarrow> heap s2 a = heap s1 a"
        by blast
      moreover from this(3) r have "\<forall>a. rk b \<le> rk a \<longrightarrow> heap s2 a = heap s1 a"
        by (meson less_le_trans)
      ultimately show ?thesis using Some by simp
    qed
    then obtain s2 where
      e2: "(case prev ?bi of Some p \<Rightarrow> image_exec_free p s1 | None \<Rightarrow> Some s1) = Some s2" and
      ok2: "refs_ok rk (heap s2) ?D2 n" and
      f2: "\<forall>a. rk b \<le> rk a \<longrightarrow> heap s2 a = heap s1 a"
      by blast
    from f2 b1 have b2: "heap s2 b = Some ?bi" by simp
    let ?s' = "s2\<lparr>heap := (heap s2)(b := None), images := images s2 - 1\<rparr>"
    have "image_exec_free b s = Some ?s'"
      by (rule free_last [OF bi False e1 b1 e2 b2])
    moreover have "refs_ok rk (heap ?s') ?D0 n"
      using refs_ok_delete [OF ok2 b2 z] by simp
    moreover have "\<forall>a. rk b < rk a \<longrightarrow> heap ?s' a = heap s a"
    proof (intro allI impI)
      fix a
      assume "rk b < rk a"
      then have "a \<noteq> b" "rk b \<le> rk a" by auto
      with f1 f2 show "heap ?s' a = heap s a" by simp
    qed
    ultimately show ?thesis by blast
  qed
qed

lemma refs_ok_cut:
  assumes "refs_ok rk h (insert (a, Prev) D) n" and "h a = Some img"
  shows "refs_ok rk (h(a \<mapsto> img\<lparr>prev := None\<rparr>)) D n"
proof -
  let ?D = "insert (a, Prev) D"
  let ?h = "h(a \<mapsto> img\<lparr>prev := None\<rparr>)"
  have same: "holds ?h D a' e = holds h ?D a' e" for a' e
    using assms(2) by (cases "a' = a") (auto simp: holds_def split: option.splits)
  have hb: "held_by ?h D n e = held_by h ?D n e" for e
    by (intro held_by_cong same)
  have 1: "\<forall>a'. ?h a' \<noteq> None \<longrightarrow> a' < n"
    using assms by (auto simp: refs_ok_def)
  have 2: "\<forall>a' ei l e. ?h a' = Some ei \<and> link_of l ei = Some e \<and> (a', l) \<notin> D \<longrightarrow>
         rk e < rk a' \<and> ?h e \<noteq> None"
  proof (intro allI impI)
    fix a' ei l e
    assume q: "?h a' = Some ei \<and> link_of l ei = Some e \<and> (a', l) \<notin> D"
    have "\<exists>ei0. h a' = Some ei0 \<and> link_of l ei0 = Some e \<and> (a', l) \<notin> ?D"
    proof (cases "a' = a")
      case True
      with q have "ei = img\<lparr>prev := None\<rparr>" by simp
      with q have "l = Script" "link_of Script img = Some e"
        by (cases l; simp add: link_of_def)+
      with True q assms(2) show ?thesis by auto
    next
      case False
      with q show ?thesis by auto
    qed
    with assms(1) have "rk e < rk a' \<and> h e \<noteq> None"
      unfolding refs_ok_def by blast
    then show "rk e < rk a' \<and> ?h e \<noteq> None" by simp
  qed
  have 3: "\<forall>e ei. ?h e = Some ei \<longrightarrow> held_by ?h D n e \<le> unat (refs ei)"
  proof (intro allI impI)
    fix e ei
    assume q: "?h e = Some ei"
    then have "\<exists>ei0. h e = Some ei0 \<and> refs ei0 = refs ei"
      using assms(2) by (cases "e = a") auto
    with assms(1) have "held_by h ?D n e \<le> unat (refs ei)"
      unfolding refs_ok_def by force
    then show "held_by ?h D n e \<le> unat (refs ei)" by (simp only: hb)
  qed
  from 1 2 3 show ?thesis unfolding refs_ok_def by blast
qed

text \<open>On a reference-counted heap the pruning returns.\<close>

lemma prune_total:
  assumes "refs_ok rk (heap s) {} n" and "heap s a \<noteq> None"
  shows "\<exists>s'. image_exec_prune_ancestors config a level s = Some s' \<and>
           refs_ok rk (heap s') {} n \<and> heap s' a \<noteq> None \<and>
           (\<forall>b. rk a < rk b \<longrightarrow> heap s' b = heap s b)"
  using assms
proof (induction config a level s rule: image_exec_prune_ancestors.induct)
  case (1 config a level s)
  from "1.prems"(2) obtain img where img: "heap s a = Some img" by auto
  note ok = "1.prems"(1)
  show ?case
  proof (cases "prev img")
    case None
    with img have "image_exec_prune_ancestors config a level s = Some s"
      by (simp add: image_exec_prune_ancestors.simps [of config a level s])
    with "1.prems" show ?thesis by simp
  next
    case (Some p)
    then have lk: "link_of Prev img = Some p" by (simp add: link_of_def)
    from ok img lk have pa: "rk p < rk a" and hp: "heap s p \<noteq> None"
      unfolding refs_ok_def by blast+
    show ?thesis
    proof (cases "ancestors config \<le> level")
      case True
      from free_total [OF ok img lk] obtain s1 where
        f: "image_exec_free p s = Some s1" and
        ok1: "refs_ok rk (heap s1) {(a, Prev)} n" and
        fr: "\<forall>b. rk p < rk b \<longrightarrow> heap s1 b = heap s b"
        by auto
      from fr pa img have a1: "heap s1 a = Some img" by simp
      let ?s' = "s1\<lparr>heap := (heap s1)(a \<mapsto> img\<lparr>prev := None\<rparr>)\<rparr>"
      have "image_exec_prune_ancestors config a level s = Some ?s'"
        using img Some True f a1
        by (simp add: image_exec_prune_ancestors.simps [of config a level s])
      moreover have "refs_ok rk (heap ?s') {} n"
        using refs_ok_cut [OF ok1 a1] by simp
      moreover have "\<forall>b. rk a < rk b \<longrightarrow> heap ?s' b = heap s b"
      proof (intro allI impI)
        fix b
        assume "rk a < rk b"
        with pa have "b \<noteq> a" "rk p < rk b" by auto
        with fr show "heap ?s' b = heap s b" by simp
      qed
      ultimately show ?thesis by simp
    next
      case False
      show ?thesis
      proof (cases "refs img = 1")
        case True
        from "1.IH" [OF img Some False True ok hp] obtain s' where
          p: "image_exec_prune_ancestors config p (level + 1) s = Some s'" and
          ok': "refs_ok rk (heap s') {} n" and
          fr: "\<forall>b. rk p < rk b \<longrightarrow> heap s' b = heap s b"
          by blast
        have "image_exec_prune_ancestors config a level s = Some s'"
          using img Some False True p
          by (simp add: image_exec_prune_ancestors.simps [of config a level s])
        moreover from fr pa img have "heap s' a \<noteq> None" by simp
        moreover from fr pa have "\<forall>b. rk a < rk b \<longrightarrow> heap s' b = heap s b"
          by (meson less_trans)
        ultimately show ?thesis using ok' by blast
      next
        case r: False
        with img Some False have "image_exec_prune_ancestors config a level s = Some s"
          by (simp add: image_exec_prune_ancestors.simps [of config a level s])
        with "1.prems" show ?thesis by simp
      qed
    qed
  qed
qed

section \<open>Properties of open and acquire\<close>

text \<open>
  The C code compares the two fields of every timestamp; two timestamps are equal
  exactly when both fields are.
\<close>

lemma timespec_eq_iff: "(a::timespec) = b \<longleftrightarrow> tv_sec a = tv_sec b \<and> tv_nsec a = tv_nsec b"
  by (cases a, cases b) simp

lemma fdstat_differs_iff:
  "fdstat_differs a b \<longleftrightarrow> size_st a \<noteq> size_st b \<or> mtime a \<noteq> mtime b \<or> ctime a \<noteq> ctime b \<or> btime a \<noteq> btime b"
  unfolding fdstat_differs_def timespec_eq_iff by blast

lemma pathstat_differs_iff:
  "pathstat_differs a b \<longleftrightarrow> size_st a \<noteq> size_st b \<or> stat_attr_t.dev a \<noteq> stat_attr_t.dev b \<or> stat_attr_t.ino a \<noteq> stat_attr_t.ino b \<or> mtime a \<noteq> mtime b \<or> ctime a \<noteq> ctime b \<or> btime a \<noteq> btime b"
  unfolding pathstat_differs_def timespec_eq_iff by blast

lemma acquire_hashes_miss:
  assumes "EIFLAG_HASHES \<notin> flags img" "EIFLAG_STAT \<in> flags img" "fd img \<noteq> - 1"
    and "cachehash_get_r e = None"
    and "hashes_fd_r e = (rv, sz, h)"
    and "acquire_hashes config e img = (r, img', ops)"
  shows "(rv = - 1 \<or> sz \<noteq> size_st (stat img) \<or> fdattr2_r e = None \<or> (\<exists>st. fdattr2_r e = Some st \<and> fdstat_differs (stat img) st) \<longrightarrow>
            r = - 1 \<and> EIFLAG_DONE \<in> flags img' \<and> EIFLAG_HASHES \<notin> flags img' \<and> ops = [])
       \<and> (ops \<noteq> [] \<longrightarrow> r = 0 \<and> sz = size_st (stat img) \<and> (\<exists>st. fdattr2_r e = Some st \<and> \<not> fdstat_differs (stat img) st))"
  using assms
  by (auto simp: acquire_hashes_def set_done_def Let_def split: option.splits if_splits)

lemma acquire_hashes_rv: "acquire_hashes config e img = (r, img', ops) \<Longrightarrow> r = 0 \<or> r = - 1"
  by (auto simp: acquire_hashes_def set_done_def Let_def split: option.splits if_splits prod.splits)

lemma acquire_hashes_ok:
  "acquire_hashes config e img = (0, img', ops) \<Longrightarrow> EIFLAG_HASHES \<in> flags img' \<and> stat img' = stat img \<and> path img' = path img \<and> image_exec_t.codesign img' = image_exec_t.codesign img \<and> flags img' = insert EIFLAG_HASHES (flags img)"
  by (auto simp: acquire_hashes_def set_done_def Let_def split: option.splits if_splits prod.splits)

lemma acquire_codesign_noput:
  "acquire_codesign x config e kern img = (- 1, img', ops) \<Longrightarrow> ops = []"
  by (auto simp: acquire_codesign_def set_done_def Let_def split: option.splits if_splits sum.splits)

text \<open>
  Claim C1.  An image that undergoes hash acquisition on a cache miss (not DONE,
  not postponed, no hashes yet, stat acquired, descriptor open, \<open>cachehash_get\<close>
  misses): if the number of bytes read differs from the size of the first stat, or
  the second stat through the descriptor differs from the first in size, mtime,
  ctime or btime, then \<open>image_exec_acquire\<close> returns -1, the image is DONE without
  HASHES, and no cache is written.  A write to the hash cache implies that the bytes
  read equal the size and that the second stat succeeded and agrees with the first
  in all four.
\<close>

theorem acquire_rejects_moving_target:
  assumes "EIFLAG_DONE \<notin> flags img"
    and "\<not> (kern \<and> kextlevel config < KEXTLEVEL_HASH x)"
    and "\<not> (kern \<and> size_st (stat img) > 1024 * 1024 * 8)"
    and "EIFLAG_HASHES \<notin> flags img" and "EIFLAG_STAT \<in> flags img" and "fd img \<noteq> - 1"
    and "cachehash_get_r e = None"
    and "hashes_fd_r e = (rv, sz, h)"
    and "image_exec_acquire x config e kern img = (r, img', ops)"
  shows "(sz \<noteq> size_st (stat img) \<or>
          (\<exists>st. fdattr2_r e = Some st \<and>
             (size_st st \<noteq> size_st (stat img) \<or> mtime st \<noteq> mtime (stat img) \<or>
              ctime st \<noteq> ctime (stat img) \<or> btime st \<noteq> btime (stat img))) \<longrightarrow>
          r = - 1 \<and> EIFLAG_DONE \<in> flags img' \<and> EIFLAG_HASHES \<notin> flags img' \<and> ops = []) \<and>
         ((\<exists>d i m c b hs. Cachehash_put d i m c b hs \<in> set ops) \<longrightarrow>
          sz = size_st (stat img) \<and>
          (\<exists>st. fdattr2_r e = Some st \<and> size_st st = size_st (stat img) \<and>
             mtime st = mtime (stat img) \<and> ctime st = ctime (stat img) \<and>
             btime st = btime (stat img)))"
proof -
  obtain r1 img1 ops1 where h: "acquire_hashes config e img = (r1, img1, ops1)"
    by (cases "acquire_hashes config e img") auto
  note m = acquire_hashes_miss [OF assms(4-8) h, unfolded fdstat_differs_iff]
  have r1: "r1 = 0 \<or> r1 = - 1" using acquire_hashes_rv [OF h] .
  show ?thesis
  proof (cases "r1 = - 1")
    case True
    with assms(1-3,9) h have "r = - 1" "img' = img1" "ops = ops1"
      by (auto simp: image_exec_acquire_def)
    with m True show ?thesis by auto
  next
    case False
    with r1 have z: "r1 = 0" by simp
    obtain r2 img2 ops2 where
      c: "acquire_codesign x config e kern (image_exec_close img1) = (r2, img2, ops2)"
      by (cases "acquire_codesign x config e kern (image_exec_close img1)") auto
    from assms(1-3,9) h c z have eq: "r = r2" "img' = img2" "ops = ops1 @ ops2"
      by (auto simp: image_exec_acquire_def)
    from m z have ok: "sz = size_st (stat img)"
      "\<exists>st. fdattr2_r e = Some st \<and> size_st (stat img) = size_st st \<and>
         mtime (stat img) = mtime st \<and> ctime (stat img) = ctime st \<and> btime (stat img) = btime st"
      by auto
    from ok show ?thesis by auto
  qed
qed

theorem acquire_rejects_moving_target_witness:
  "EIFLAG_STAT \<in> flags ex_opened \<and> cachehash_get_r ex_acq_env = None \<and>
   mtime (the (fdattr2_r ex_acq_env)) \<noteq> mtime (stat ex_opened) \<and>
   fst (image_exec_acquire ex_extern ex_config ex_acq_env False ex_opened) = - 1 \<and>
   snd (snd (image_exec_acquire ex_extern ex_config ex_acq_env False ex_opened)) = []"
proof -
  obtain r i ops where
    run: "image_exec_acquire ex_extern ex_config ex_acq_env False ex_opened = (r, i, ops)"
    by (cases "image_exec_acquire ex_extern ex_config ex_acq_env False ex_opened") auto
  have "r = - 1 \<and> ops = []"
    using acquire_rejects_moving_target [of ex_opened False ex_config ex_extern ex_acq_env 0 120000 7 r i ops] run
    by (simp add: ex_opened_def ex_image_def ex_acq_env_def ex_stat_def)
  then show ?thesis
    by (simp add: run) (simp add: ex_opened_def ex_image_def ex_acq_env_def ex_stat_def)
qed

lemma acquire_csig_cache_Inr:
  "acquire_csig_cache e img = Inr img1 \<Longrightarrow>
     stat img1 = stat img \<and> flags img1 = flags img \<and> hashes img1 = hashes img \<and> path img1 = path img"
  by (auto simp: acquire_csig_cache_def split: if_splits sum.splits)

lemma acquire_codesign_fresh:
  assumes "\<not> (kern \<and> kextlevel config < KEXTLEVEL_CSIG x)"
    and "EIFLAG_SHEBANG \<notin> flags img"
    and "acquire_csig_cache e img = Inr img1"
    and "image_exec_t.codesign img1 = None"
    and "config_t.codesign config"
    and "\<not> (kern \<and> (path img = ''/usr/libexec/xpcproxy'' \<or> path img = ''/usr/sbin/ocspd''))"
    and "codesign_new_r e = Inr cs"
    and "acquire_codesign x config e kern img = (r, img', ops)"
  shows "(\<forall>st. pathattr_r e = Some st \<and> pathstat_differs (stat img) st \<longrightarrow>
            r = - 1 \<and> image_exec_t.codesign img' = None \<and> EIFLAG_DONE \<in> flags img' \<and> ops = []) \<and>
         (\<forall>st. pathattr_r e = Some st \<and> \<not> pathstat_differs (stat img) st \<longrightarrow>
            r = 0 \<and> image_exec_t.codesign img' = Some cs \<and> EIFLAG_DONE \<in> flags img' \<and>
            ops = [Cachecsig_put (hashes img) cs]) \<and>
         (pathattr_r e = None \<longrightarrow> r = - 1 \<and> EIFLAG_DONE \<in> flags img' \<and> ops = [])"
proof -
  have p: "path img1 = path img" "stat img1 = stat img" "hashes img1 = hashes img"
    using acquire_csig_cache_Inr [OF assms(3)] by simp_all
  have "acquire_codesign x config e kern img =
      (case pathattr_r e of
         None \<Rightarrow> (- 1, set_done (img1\<lparr>image_exec_t.codesign := Some cs\<rparr>), [])
       | Some st \<Rightarrow>
           if pathstat_differs (stat img) st
           then (- 1, set_done (img1\<lparr>image_exec_t.codesign := None\<rparr>), [])
           else (0, set_done (img1\<lparr>image_exec_t.codesign := Some cs\<rparr>),
                 [Cachecsig_put (hashes img) cs]))"
    using assms(1,2,4,5,6,7) by (cases kern) (simp_all add: acquire_codesign_def assms(3) p Let_def split: option.splits)
  with assms(8) show ?thesis
    by (cases "pathattr_r e") (auto simp: set_done_def split: if_splits)
qed

lemma acquire_hashes_passes:
  assumes "EIFLAG_HASHES \<in> flags img \<or>
         EIFLAG_STAT \<in> flags img \<and> fd img \<noteq> - 1 \<and>
         (cachehash_get_r e \<noteq> None \<or>
          (\<exists>rv sz h st. hashes_fd_r e = (rv, sz, h) \<and> rv \<noteq> - 1 \<and> sz = size_st (stat img) \<and>
             fdattr2_r e = Some st \<and> size_st st = size_st (stat img) \<and>
             mtime st = mtime (stat img) \<and> ctime st = ctime (stat img) \<and>
             btime st = btime (stat img)))"
  shows "\<exists>imgh opsh. acquire_hashes config e img = (0, imgh, opsh) \<and>
           (\<forall>hs c. Cachecsig_put hs c \<notin> set opsh)"
proof (cases "EIFLAG_HASHES \<in> flags img")
  case True
  then show ?thesis by (simp add: acquire_hashes_def)
next
  case False
  note nh = False
  with assms have st: "EIFLAG_STAT \<in> flags img" "fd img \<noteq> - 1" by auto
  show ?thesis
  proof (cases "cachehash_get_r e")
    case (Some h)
    with nh st show ?thesis by (simp add: acquire_hashes_def)
  next
    case None
    with assms nh obtain rv sz h st where
      h: "hashes_fd_r e = (rv, sz, h)" "rv \<noteq> - 1" "sz = size_st (stat img)"
        "fdattr2_r e = Some st" and
      eq: "size_st st = size_st (stat img)" "mtime st = mtime (stat img)"
        "ctime st = ctime (stat img)" "btime st = btime (stat img)"
      by auto
    from eq have "\<not> fdstat_differs (stat img) st"
      by (simp add: fdstat_differs_iff)
    with None nh st h show ?thesis
      by (simp add: acquire_hashes_def Let_def)
  qed
qed

lemma image_exec_close_fields:
  "stat (image_exec_close i) = stat i \<and> flags (image_exec_close i) = flags i \<and>
   path (image_exec_close i) = path i \<and> hashes (image_exec_close i) = hashes i \<and>
   image_exec_t.codesign (image_exec_close i) = image_exec_t.codesign i"
  by (simp add: image_exec_close_def)

text \<open>
  Claim C2.  An image whose signature is freshly computed by \<open>image_exec_acquire\<close>
  (lines 382-429 are reached: the image is not DONE, nothing is postponed, the
  hashes are present or are acquired in this call, the image has no signature
  and the signature cache gives none, signature checking is configured and
  \<open>codesign_new\<close> succeeds): if the stat by path that follows differs from the
  original stat in size, dev, ino, mtime, ctime or btime, the signature is
  dropped, the image is DONE, \<open>image_exec_acquire\<close> returns -1 and nothing is
  written to the signature cache.  A write to the signature cache implies that
  the stat by path succeeded and agrees in all six, that the return value is 0
  and that the image keeps the signature.
\<close>

theorem codesign_restat_bracket:
  assumes "EIFLAG_DONE \<notin> flags img"
    and "\<not> (kern \<and> kextlevel config < KEXTLEVEL_HASH x)"
    and "\<not> (kern \<and> size_st (stat img) > 1024 * 1024 * 8)"
    and "EIFLAG_HASHES \<in> flags img \<or>
         EIFLAG_STAT \<in> flags img \<and> fd img \<noteq> - 1 \<and>
         (cachehash_get_r e \<noteq> None \<or>
          (\<exists>rv sz h st. hashes_fd_r e = (rv, sz, h) \<and> rv \<noteq> - 1 \<and> sz = size_st (stat img) \<and>
             fdattr2_r e = Some st \<and> size_st st = size_st (stat img) \<and>
             mtime st = mtime (stat img) \<and> ctime st = ctime (stat img) \<and>
             btime st = btime (stat img)))"
    and "\<not> (kern \<and> kextlevel config < KEXTLEVEL_CSIG x)"
    and "EIFLAG_SHEBANG \<notin> flags img"
    and "image_exec_t.codesign img = None"
    and "cachecsig_get_r e = Inl err" and "err \<noteq> ENOMEM"
    and "config_t.codesign config"
    and "\<not> (kern \<and> (path img = ''/usr/libexec/xpcproxy'' \<or> path img = ''/usr/sbin/ocspd''))"
    and "codesign_new_r e = Inr cs"
    and "image_exec_acquire x config e kern img = (r, img', ops)"
  shows "(\<forall>st. pathattr_r e = Some st \<and>
            (size_st st \<noteq> size_st (stat img) \<or>
             stat_attr_t.dev st \<noteq> stat_attr_t.dev (stat img) \<or>
             stat_attr_t.ino st \<noteq> stat_attr_t.ino (stat img) \<or>
             mtime st \<noteq> mtime (stat img) \<or> ctime st \<noteq> ctime (stat img) \<or>
             btime st \<noteq> btime (stat img)) \<longrightarrow>
            r = - 1 \<and> image_exec_t.codesign img' = None \<and> EIFLAG_DONE \<in> flags img' \<and>
            (\<forall>hs c. Cachecsig_put hs c \<notin> set ops)) \<and>
         ((\<exists>hs c. Cachecsig_put hs c \<in> set ops) \<longrightarrow>
            r = 0 \<and> image_exec_t.codesign img' = Some cs \<and>
            (\<exists>st. pathattr_r e = Some st \<and> size_st st = size_st (stat img) \<and>
               stat_attr_t.dev st = stat_attr_t.dev (stat img) \<and>
               stat_attr_t.ino st = stat_attr_t.ino (stat img) \<and>
               mtime st = mtime (stat img) \<and> ctime st = ctime (stat img) \<and>
               btime st = btime (stat img)))"
proof -
  from acquire_hashes_passes [OF assms(4)] obtain imgh opsh where
    h: "acquire_hashes config e img = (0, imgh, opsh)" and
    nop: "\<forall>hs c. Cachecsig_put hs c \<notin> set opsh"
    by blast
  note ok = acquire_hashes_ok [OF h]
  let ?c = "image_exec_close imgh"
  note cf = image_exec_close_fields [of imgh]
  obtain r2 img2 ops2 where
    c: "acquire_codesign x config e kern ?c = (r2, img2, ops2)"
    by (cases "acquire_codesign x config e kern ?c") auto
  from assms(1-3,13) h c have eq: "r = r2" "img' = img2" "ops = opsh @ ops2"
    by (auto simp: image_exec_acquire_def)
  have cache: "acquire_csig_cache e ?c = Inr ?c"
    using assms(7-9) ok cf by (simp add: acquire_csig_cache_def)
  have a2: "EIFLAG_SHEBANG \<notin> flags ?c" using assms(6) ok cf by auto
  have a4: "image_exec_t.codesign ?c = None" using assms(7) ok cf by simp
  have a6: "\<not> (kern \<and> (path ?c = ''/usr/libexec/xpcproxy'' \<or> path ?c = ''/usr/sbin/ocspd''))"
    using assms(11) ok cf by simp
  note f = acquire_codesign_fresh [OF assms(5) a2 cache a4 assms(10) a6 assms(12) c]
  have s: "stat ?c = stat img" using ok cf by simp
  show ?thesis
  proof (cases "pathattr_r e")
    case None
    with f eq nop show ?thesis by auto
  next
    case (Some st)
    with f eq nop s show ?thesis
      by (cases "pathstat_differs (stat img) st") (auto simp: pathstat_differs_iff)
  qed
qed

theorem codesign_restat_bracket_witness:
  "EIFLAG_HASHES \<in> flags ex_hashed \<and>
   codesign_new_r ex_acq_env = Inr ex_codesign \<and>
   stat_attr_t.ino (the (pathattr_r ex_acq_env)) \<noteq> stat_attr_t.ino (stat ex_hashed) \<and>
   fst (image_exec_acquire ex_extern ex_config ex_acq_env False ex_hashed) = - 1 \<and>
   image_exec_t.codesign
     (fst (snd (image_exec_acquire ex_extern ex_config ex_acq_env False ex_hashed))) = None \<and>
   EIFLAG_DONE \<in>
     flags (fst (snd (image_exec_acquire ex_extern ex_config ex_acq_env False ex_hashed))) \<and>
   snd (snd (image_exec_acquire ex_extern ex_config ex_acq_env False ex_hashed)) = []"
proof -
  obtain r i ops where
    run: "image_exec_acquire ex_extern ex_config ex_acq_env False ex_hashed = (r, i, ops)"
    by (cases "image_exec_acquire ex_extern ex_config ex_acq_env False ex_hashed") auto
  have "r = - 1 \<and> image_exec_t.codesign i = None \<and> EIFLAG_DONE \<in> flags i"
    using codesign_restat_bracket [of ex_hashed False ex_config ex_extern ex_acq_env 0
        ex_codesign r i ops] run
    by (simp add: ex_hashed_def ex_opened_def ex_image_def ex_acq_env_def ex_stat_def
        ex_config_def ENOMEM_def)
  moreover have "ops = []"
    using run
    by (simp add: image_exec_acquire_def acquire_hashes_def acquire_codesign_def
        acquire_csig_cache_def image_exec_close_def set_done_def pathstat_differs_def
        ex_hashed_def ex_opened_def ex_image_def ex_acq_env_def ex_stat_def
        ex_config_def ENOMEM_def Let_def)
  ultimately show ?thesis
    by (simp add: run) (simp add: ex_hashed_def ex_opened_def ex_image_def ex_acq_env_def ex_stat_def)
qed

text \<open>
  Claim C6, as stated, has the fallback copy size, mtime, ctime and btime from the
  audit attribute.  The code copies mode, uid, gid, dev and ino only (lines
  231-235).  With the same image and the same audit attribute, two different
  results of the stat through the descriptor (both mismatching the attribute's
  inode) leave two different sizes and mtimes in the image: those fields are not
  taken from the attribute.
\<close>

theorem image_exec_open_fallback_counterexample:
  "fst (the (image_exec_open ex_open_env (Some ex_attr) ex_image)) = 0 \<and>
   EIFLAG_ATTR \<in> flags (snd (the (image_exec_open ex_open_env (Some ex_attr) ex_image))) \<and>
   size_st (stat (snd (the (image_exec_open ex_open_env (Some ex_attr) ex_image)))) = 120000 \<and>
   mtime (stat (snd (the (image_exec_open ex_open_env (Some ex_attr) ex_image))))
     = \<lparr>tv_sec = 1000, tv_nsec = 0\<rparr> \<and>
   fst (the (image_exec_open ex_open_env2 (Some ex_attr) ex_image)) = 0 \<and>
   EIFLAG_ATTR \<in> flags (snd (the (image_exec_open ex_open_env2 (Some ex_attr) ex_image))) \<and>
   size_st (stat (snd (the (image_exec_open ex_open_env2 (Some ex_attr) ex_image)))) = 5 \<and>
   mtime (stat (snd (the (image_exec_open ex_open_env2 (Some ex_attr) ex_image))))
     = \<lparr>tv_sec = 2000, tv_nsec = 0\<rparr>"
  by (simp add: image_exec_open_def ex_open_env_def ex_open_env2_def ex_attr_def ex_image_def
      ex_stat_def attr_mismatch_def fallback_def Let_def)

text \<open>
  Claim C6, amended.  When \<open>image_exec_open\<close> tries the path (no STAT, ATTR or
  NOPATH flag, path not under /dev/) with an audit attribute and the open fails,
  or the stat through the descriptor fails, or that stat succeeds but differs from
  the attribute in dev, ino, mode, uid or gid, then open returns 0, the image is
  marked ATTR, and mode, uid, gid, dev and ino of its stat are those of the
  attribute.  Size, mtime, ctime and btime are not touched by the fallback: they
  are what the stat through the descriptor returned if it succeeded, and the
  image's earlier values otherwise.
\<close>

theorem image_exec_open_fallback:
  assumes "EIFLAG_STAT \<notin> flags img" and "EIFLAG_ATTR \<notin> flags img"
    and "EIFLAG_NOPATH \<notin> flags img" and "take 5 (path img) \<noteq> ''/dev/''"
    and "open_r e = - 1 \<or> fdattr_r e = None \<or>
         (\<exists>st. fdattr_r e = Some st \<and>
            (stat_attr_t.dev st \<noteq> audit_attr_t.dev a \<or> stat_attr_t.ino st \<noteq> audit_attr_t.ino a \<or>
             stat_attr_t.mode st \<noteq> audit_attr_t.mode a \<or> stat_attr_t.uid st \<noteq> audit_attr_t.uid a \<or>
             stat_attr_t.gid st \<noteq> audit_attr_t.gid a))"
  shows "\<exists>img'. image_exec_open e (Some a) img = Some (0, img') \<and>
           stat img' = (if open_r e = - 1 then stat img
                        else case fdattr_r e of None \<Rightarrow> stat img | Some st \<Rightarrow> st)
             \<lparr>stat_attr_t.mode := audit_attr_t.mode a, stat_attr_t.uid := audit_attr_t.uid a,
              stat_attr_t.gid := audit_attr_t.gid a, stat_attr_t.dev := audit_attr_t.dev a,
              stat_attr_t.ino := audit_attr_t.ino a\<rparr> \<and>
           flags img' = insert EIFLAG_ATTR (flags img)"
proof (cases "open_r e = - 1")
  case True
  with assms(1-4) show ?thesis
    by (simp add: image_exec_open_def fallback_or_fail_def fallback_def)
next
  case False
  show ?thesis
  proof (cases "fdattr_r e")
    case None
    with False assms(1-4) show ?thesis
      by (simp add: image_exec_open_def fallback_or_fail_def fallback_def)
  next
    case (Some st)
    with False assms(5) have "attr_mismatch st a"
      by (auto simp: attr_mismatch_def)
    with Some False assms(1-4) show ?thesis
      by (simp add: image_exec_open_def fallback_def)
  qed
qed

theorem image_exec_open_fallback_witness:
  "image_exec_open ex_open_env (Some ex_attr) ex_image
     = Some (0, ex_image\<lparr>fd := 3, stat := ex_stat\<lparr>stat_attr_t.ino := 43\<rparr>,
                         flags := {EIFLAG_ATTR}\<rparr>)"
proof -
  have "\<exists>st. fdattr_r ex_open_env = Some st \<and> stat_attr_t.ino st \<noteq> audit_attr_t.ino ex_attr"
    by (simp add: ex_open_env_def ex_stat_def ex_attr_def)
  then have "\<exists>img'. image_exec_open ex_open_env (Some ex_attr) ex_image = Some (0, img') \<and>
      stat img' = ex_stat\<lparr>stat_attr_t.ino := 43\<rparr> \<and> flags img' = {EIFLAG_ATTR}"
    using image_exec_open_fallback [of ex_image ex_open_env ex_attr]
    by (simp add: ex_open_env_def ex_stat_def ex_attr_def ex_image_def)
  then show ?thesis
    by (auto simp: image_exec_open_def ex_open_env_def ex_attr_def ex_image_def
      ex_stat_def attr_mismatch_def fallback_def Let_def)
qed


section \<open>Pruning the ancestors\<close>

lemma prev_kept_or_cut_refl: "prev_kept_or_cut h h"
  by (simp add: prev_kept_or_cut_def)

lemma heap_shrinks_prev: "heap_shrinks h h' \<Longrightarrow> prev_kept_or_cut h h'"
  unfolding heap_shrinks_def prev_kept_or_cut_def
proof (intro allI impI)
  fix b ei'
  assume a: "\<forall>b ei'. h' b = Some ei' \<longrightarrow> (\<exists>ei. h b = Some ei \<and> ei' = ei\<lparr>refs := refs ei'\<rparr>)"
    and b: "h' b = Some ei'"
  then obtain ei where e: "h b = Some ei" "ei' = ei\<lparr>refs := refs ei'\<rparr>" by blast
  from e(2) have "prev ei' = prev (ei\<lparr>refs := refs ei'\<rparr>)" by simp
  then have "prev ei' = prev ei" by simp
  with e(1) show "\<exists>ei. h b = Some ei \<and> (prev ei' = prev ei \<or> prev ei' = None)" by blast
qed

lemma prune_cut_step:
  assumes "heap_shrinks h h1" and "h1 a = Some img1"
  shows "prev_kept_or_cut h (h1(a \<mapsto> img1\<lparr>prev := None\<rparr>))"
  unfolding prev_kept_or_cut_def
proof (intro allI impI)
  fix b ei'
  assume b: "(h1(a \<mapsto> img1\<lparr>prev := None\<rparr>)) b = Some ei'"
  note k = heap_shrinks_prev [OF assms(1), unfolded prev_kept_or_cut_def, rule_format]
  show "\<exists>ei. h b = Some ei \<and> (prev ei' = prev ei \<or> prev ei' = None)"
  proof (cases "b = a")
    case True
    with b have "prev ei' = None" by auto
    with k [OF assms(2)] True show ?thesis by auto
  next
    case False
    with b have "h1 b = Some ei'" by simp
    from k [OF this] show ?thesis .
  qed
qed

lemma prune_frame:
  "image_exec_prune_ancestors config a level s = Some s' \<Longrightarrow>
     prev_kept_or_cut (heap s) (heap s')"
proof (induction config a level s rule: image_exec_prune_ancestors.induct)
  case (1 config a level s)
  from "1.prems" obtain img where img: "heap s a = Some img"
    by (cases "heap s a") (auto simp: image_exec_prune_ancestors.simps [of config a level s])
  show ?case
  proof (cases "prev img")
    case None
    with "1.prems" img have "s' = s"
      by (simp add: image_exec_prune_ancestors.simps [of config a level s])
    then show ?thesis by (simp add: prev_kept_or_cut_refl)
  next
    case (Some p)
    show ?thesis
    proof (cases "ancestors config \<le> level")
      case True
      with "1.prems" img Some obtain s1 img1 where
        f: "image_exec_free p s = Some s1" and
        h1: "heap s1 a = Some img1" and
        e: "s' = s1\<lparr>heap := (heap s1)(a \<mapsto> img1\<lparr>prev := None\<rparr>)\<rparr>"
        by (auto simp: image_exec_prune_ancestors.simps [of config a level s]
              bind_eq_Some_conv split: option.splits)
      from image_exec_free_frame [OF f] have "heap_shrinks (heap s) (heap s1)" by simp
      from prune_cut_step [OF this h1]
      have "prev_kept_or_cut (heap s) (heap (s1\<lparr>heap := (heap s1)(a \<mapsto> img1\<lparr>prev := None\<rparr>)\<rparr>))"
        by simp
      then show ?thesis unfolding e .
    next
      case False
      show ?thesis
      proof (cases "refs img = 1")
        case True
        with "1.prems" img Some False have
          "image_exec_prune_ancestors config p (level + 1) s = Some s'"
          by (simp add: image_exec_prune_ancestors.simps [of config a level s])
        from "1.IH" [OF img Some False True this] show ?thesis .
      next
        case r: False
        with "1.prems" img Some False have "s' = s"
          by (simp add: image_exec_prune_ancestors.simps [of config a level s])
        then show ?thesis by (simp add: prev_kept_or_cut_refl)
      qed
    qed
  qed
qed


lemma ancestor_chain_Some:
  "ancestor_chain h (Some a) (a # xs) \<longleftrightarrow> (\<exists>img. h a = Some img \<and> ancestor_chain h (prev img) xs)"
  by (auto split: option.splits)

lemma ancestor_chain_None: "ancestor_chain h None xs \<longleftrightarrow> xs = []"
  by (cases xs) auto

lemma ancestor_chain_hd: "ancestor_chain h (Some p) xs \<Longrightarrow> \<exists>xs'. xs = p # xs'"
  by (cases xs) auto

lemma unat_level_Suc:
  assumes "\<not> ancestors config \<le> (level :: size_t)"
  shows "unat (level + 1) = Suc (unat level)" and "level + 1 \<le> ancestors config"
proof -
  from assms have lt: "level < ancestors config" by simp
  then have b: "unat level < unat (ancestors config)"
    by (simp add: word_less_nat_alt)
  have "unat (ancestors config) < 2 ^ 64"
    using unsigned_less [of "ancestors config", where ?'a = nat] by simp
  with b have "unat level + unat (1 :: 64 word) < 2 ^ LENGTH(64)" by simp
  then have "unat (level + 1) = unat level + unat (1 :: 64 word)"
    by (rule unat_add_lem [THEN iffD1])
  then show "unat (level + 1) = Suc (unat level)" by simp
  with b show "level + 1 \<le> ancestors config"
    by (simp add: word_le_nat_alt)
qed

lemma prune_bound:
  assumes "image_exec_prune_ancestors config a level s = Some s'"
    and "ancestor_chain (heap s) (Some a) (a # xs)"
    and "\<forall>i < length (a # xs). unat level + i < unat (ancestors config) \<longrightarrow>
           refs (the (heap s ((a # xs) ! i))) = 1"
    and "level \<le> ancestors config"
    and "ancestor_chain (heap s') (Some a) (a # ys)"
  shows "unat level + length ys \<le> unat (ancestors config)"
  using assms
proof (induction config a level s arbitrary: xs ys rule: image_exec_prune_ancestors.induct)
  case (1 config a level s)
  note simps = image_exec_prune_ancestors.simps [of config a level s]
  from "1.prems"(2) obtain img where img: "heap s a = Some img"
    and ch: "ancestor_chain (heap s) (prev img) xs"
    unfolding ancestor_chain_Some by blast
  from "1.prems"(5) obtain img' where img': "heap s' a = Some img'"
    and ch': "ancestor_chain (heap s') (prev img') ys"
    unfolding ancestor_chain_Some by blast
  from "1.prems"(4) have le: "unat level \<le> unat (ancestors config)"
    by (simp add: word_le_nat_alt)
  show ?case
  proof (cases "prev img")
    case None
    with "1.prems"(1) img have "s' = s" by (simp add: simps)
    with img img' None ch' have "ys = []" by (simp add: ancestor_chain_None)
    with le show ?thesis by simp
  next
    case (Some p)
    show ?thesis
    proof (cases "ancestors config \<le> level")
      case True
      with "1.prems"(1) img Some obtain s1 img1 where
        e: "s' = s1\<lparr>heap := (heap s1)(a \<mapsto> img1\<lparr>prev := None\<rparr>)\<rparr>"
        by (auto simp: simps bind_eq_Some_conv split: option.splits)
      with img' have "prev img' = None" by auto
      with ch' have "ys = []" by (simp add: ancestor_chain_None)
      with le show ?thesis by simp
    next
      case False
      note lvl = unat_level_Suc [OF False]
      from False have lt: "unat level < unat (ancestors config)"
        by (simp add: word_less_nat_alt not_le)
      with "1.prems"(3) img have r1: "refs img = 1" by auto
      with "1.prems"(1) img Some False have
        rec: "image_exec_prune_ancestors config p (level + 1) s = Some s'"
        by (simp add: simps)
      from ch Some have "ancestor_chain (heap s) (Some p) xs" by simp
      then obtain xs' where xs: "xs = p # xs'"
        by (cases xs) auto
      with ch Some have c1: "ancestor_chain (heap s) (Some p) (p # xs')" by simp
      have c2: "\<forall>i < length (p # xs'). unat (level + 1) + i < unat (ancestors config) \<longrightarrow>
           refs (the (heap s ((p # xs') ! i))) = 1"
      proof (intro allI impI)
        fix i
        assume "i < length (p # xs')" and "unat (level + 1) + i < unat (ancestors config)"
        then have "Suc i < length (a # xs)" "unat level + Suc i < unat (ancestors config)"
          using xs lvl(1) by simp_all
        with "1.prems"(3) have "refs (the (heap s ((a # xs) ! Suc i))) = 1" by blast
        then show "refs (the (heap s ((p # xs') ! i))) = 1" using xs by simp
      qed
      from prune_frame [OF "1.prems"(1)] img' img
      have "prev img' = prev img \<or> prev img' = None"
        unfolding prev_kept_or_cut_def by force
      then show ?thesis
      proof
        assume "prev img' = None"
        with ch' have "ys = []" by (simp add: ancestor_chain_None)
        with le show ?thesis by simp
      next
        assume "prev img' = prev img"
        with ch' Some have "ancestor_chain (heap s') (Some p) ys" by simp
        then obtain ys' where ys: "ys = p # ys'"
          by (cases ys) auto
        with ch' \<open>prev img' = prev img\<close> Some
        have c3: "ancestor_chain (heap s') (Some p) (p # ys')" by simp
        from "1.IH" [OF img Some False r1 rec c1 c2 lvl(2) c3]
        have "unat (level + 1) + length ys' \<le> unat (ancestors config)" .
        with lvl(1) ys show ?thesis by simp
      qed
    qed
  qed
qed

lemma prune_shared_noop:
  assumes "ancestor_chain (heap s) (Some a) (a # xs)"
    and "\<exists>j < length (a # xs). unat level + j < unat (ancestors config) \<and>
           refs (the (heap s ((a # xs) ! j))) \<noteq> 1"
  shows "image_exec_prune_ancestors config a level s = Some s"
  using assms
proof (induction config a level s arbitrary: xs rule: image_exec_prune_ancestors.induct)
  case (1 config a level s)
  note simps = image_exec_prune_ancestors.simps [of config a level s]
  from "1.prems"(1) obtain img where img: "heap s a = Some img"
    and ch: "ancestor_chain (heap s) (prev img) xs"
    unfolding ancestor_chain_Some by blast
  from "1.prems"(2) obtain j where j: "j < length (a # xs)"
    "unat level + j < unat (ancestors config)" "refs (the (heap s ((a # xs) ! j))) \<noteq> 1"
    by blast
  from j(2) have nle: "\<not> ancestors config \<le> level"
    by (simp add: word_le_nat_alt)
  show ?case
  proof (cases "prev img")
    case None
    with img show ?thesis by (simp add: simps)
  next
    case (Some p)
    show ?thesis
    proof (cases "refs img = 1")
      case False
      with img Some nle show ?thesis by (simp add: simps)
    next
      case True
      with j(3) img have "j \<noteq> 0" by (cases j) auto
      then obtain j' where j': "j = Suc j'" by (cases j) auto
      from ch Some have "ancestor_chain (heap s) (Some p) xs" by simp
      then obtain xs' where xs: "xs = p # xs'"
        by (cases xs) auto
      with ch Some have c1: "ancestor_chain (heap s) (Some p) (p # xs')" by simp
      have c2: "\<exists>j < length (p # xs'). unat (level + 1) + j < unat (ancestors config) \<and>
           refs (the (heap s ((p # xs') ! j))) \<noteq> 1"
        using j j' xs unat_level_Suc(1) [OF nle] by (intro exI [of _ j']) simp
      from "1.IH" [OF img Some nle True c1 c2] img Some nle True
      show ?thesis by (simp add: simps)
    qed
  qed
qed


lemma acquire_hashes_links:
  "acquire_hashes config e img = (rv, img', ops) \<Longrightarrow>
     prev img' = prev img \<and> refs img' = refs img"
  by (auto simp: acquire_hashes_def set_done_def Let_def split: option.splits if_splits prod.splits)

lemma acquire_csig_cache_links:
  "acquire_csig_cache e img = r \<Longrightarrow>
     (case r of Inl i \<Rightarrow> prev i = prev img \<and> refs i = refs img
              | Inr i \<Rightarrow> prev i = prev img \<and> refs i = refs img)"
  by (auto simp: acquire_csig_cache_def set_done_def split: sum.splits if_splits)

lemma acquire_codesign_links:
  assumes "acquire_codesign x config e kern img = (rv, img', ops)"
  shows "prev img' = prev img \<and> refs img' = refs img"
proof (cases "acquire_csig_cache e img")
  case (Inl i)
  with acquire_csig_cache_links [of e img "Inl i"] have "prev i = prev img \<and> refs i = refs img"
    by simp
  with assms Inl show ?thesis
    by (auto simp: acquire_codesign_def set_done_def split: if_splits)
next
  case (Inr i)
  with acquire_csig_cache_links [of e img "Inr i"] have "prev i = prev img \<and> refs i = refs img"
    by simp
  with assms Inr show ?thesis
    by (auto simp: acquire_codesign_def set_done_def Let_def
          split: if_splits sum.splits option.splits)
qed

lemma image_exec_acquire_links:
  assumes "image_exec_acquire x config e kern img = (rv, img', ops)"
  shows "prev img' = prev img \<and> refs img' = refs img"
proof -
  obtain r1 i1 o1 where h: "acquire_hashes config e img = (r1, i1, o1)"
    by (cases "acquire_hashes config e img") auto
  obtain r2 i2 o2 where c: "acquire_codesign x config e kern (image_exec_close i1) = (r2, i2, o2)"
    by (cases "acquire_codesign x config e kern (image_exec_close i1)") auto
  have cl: "prev (image_exec_close i1) = prev i1 \<and> refs (image_exec_close i1) = refs i1"
    by (simp add: image_exec_close_def)
  from assms h c have "img' = img \<or> img' = i1 \<or> img' = i2"
    by (auto simp: image_exec_acquire_def split: if_splits)
  with acquire_hashes_links [OF h] acquire_codesign_links [OF c] cl show ?thesis
    by auto
qed

lemma links_same_refl: "links_same h h"
  by (simp add: links_same_def)

lemma links_same_trans: "links_same h1 h2 \<Longrightarrow> links_same h2 h3 \<Longrightarrow> links_same h1 h3"
  by (simp add: links_same_def)

lemma acquire_close_at_links:
  assumes "acquire_close_at x config e a s = Some s1"
  shows "links_same (heap s) (heap s1)"
proof -
  from assms obtain img where img: "heap s a = Some img"
    by (cases "heap s a") (auto simp: acquire_close_at_def)
  obtain rv img1 ops where q: "image_exec_acquire x config e False img = (rv, img1, ops)"
    by (cases "image_exec_acquire x config e False img") auto
  with assms img have e: "heap s1 = (heap s)(a \<mapsto> image_exec_close img1)"
    by (auto simp: acquire_close_at_def)
  have "prev (image_exec_close img1) = prev img \<and> refs (image_exec_close img1) = refs img"
    using image_exec_acquire_links [OF q] by (simp add: image_exec_close_def)
  with img e show ?thesis
    by (simp add: links_same_def)
qed

lemma links_same_chain:
  "links_same h h' \<Longrightarrow> ancestor_chain h' p xs = ancestor_chain h p xs"
proof (induction xs arbitrary: p)
  case Nil
  then show ?case by simp
next
  case (Cons a xs)
  from Cons.prems have m: "map_option (\<lambda>ei. (prev ei, refs ei)) (h' a) =
      map_option (\<lambda>ei. (prev ei, refs ei)) (h a)"
    by (simp add: links_same_def)
  show ?case
  proof (cases "h a")
    case None
    with m have "h' a = None" by simp
    with None show ?thesis by simp
  next
    case (Some ei)
    with m obtain ei' where e: "h' a = Some ei'" "prev ei' = prev ei" by auto
    with Some Cons.IH [OF Cons.prems, of "prev ei"] show ?thesis by simp
  qed
qed

lemma links_same_refs: "links_same h h' \<Longrightarrow> h b = Some ei \<Longrightarrow> refs (the (h' b)) = refs ei"
proof -
  assume "links_same h h'" and b: "h b = Some ei"
  then have "map_option (\<lambda>ei. (prev ei, refs ei)) (h' b) =
      map_option (\<lambda>ei. (prev ei, refs ei)) (h b)"
    by (simp add: links_same_def)
  with b show ?thesis by auto
qed

lemma ancestor_chain_nth:
  "ancestor_chain h p xs \<Longrightarrow> i < length xs \<Longrightarrow> \<exists>ei. h (xs ! i) = Some ei"
proof (induction xs arbitrary: p i)
  case Nil
  then show ?case by simp
next
  case (Cons a xs)
  then show ?case
    by (cases i) (auto split: option.splits)
qed

section \<open>A run of the work function\<close>

lemma acquire_hashes_keeps:
  "acquire_hashes config e img = (rv, img', ops) \<Longrightarrow>
     script img' = script img \<and> path img' = path img \<and>
     (EIFLAG_NOLOG \<in> flags img' \<longleftrightarrow> EIFLAG_NOLOG \<in> flags img)"
  by (auto simp: acquire_hashes_def set_done_def Let_def split: option.splits if_splits prod.splits)

lemma acquire_csig_cache_keeps:
  "acquire_csig_cache e img = r \<Longrightarrow>
     (case r of
        Inl i \<Rightarrow> script i = script img \<and> path i = path img \<and>
                 (EIFLAG_NOLOG \<in> flags i \<longleftrightarrow> EIFLAG_NOLOG \<in> flags img)
      | Inr i \<Rightarrow> script i = script img \<and> path i = path img \<and>
                 (EIFLAG_NOLOG \<in> flags i \<longleftrightarrow> EIFLAG_NOLOG \<in> flags img))"
  by (auto simp: acquire_csig_cache_def set_done_def split: sum.splits if_splits)

lemma acquire_codesign_keeps:
  assumes "acquire_codesign x config e kern img = (rv, img', ops)"
  shows "script img' = script img \<and> path img' = path img \<and>
         (EIFLAG_NOLOG \<in> flags img' \<longleftrightarrow> EIFLAG_NOLOG \<in> flags img)"
proof (cases "acquire_csig_cache e img")
  case (Inl i)
  with acquire_csig_cache_keeps [of e img "Inl i"]
  have "script i = script img \<and> path i = path img \<and>
        (EIFLAG_NOLOG \<in> flags i \<longleftrightarrow> EIFLAG_NOLOG \<in> flags img)"
    by simp
  with assms Inl show ?thesis
    by (auto simp: acquire_codesign_def set_done_def split: if_splits)
next
  case (Inr i)
  with acquire_csig_cache_keeps [of e img "Inr i"]
  have "script i = script img \<and> path i = path img \<and>
        (EIFLAG_NOLOG \<in> flags i \<longleftrightarrow> EIFLAG_NOLOG \<in> flags img)"
    by simp
  with assms Inr show ?thesis
    by (auto simp: acquire_codesign_def set_done_def Let_def
          split: if_splits sum.splits option.splits)
qed

lemma image_exec_acquire_keeps:
  assumes "image_exec_acquire x config e kern img = (rv, img', ops)"
  shows "script img' = script img \<and> path img' = path img \<and>
         (EIFLAG_NOLOG \<in> flags img' \<longleftrightarrow> EIFLAG_NOLOG \<in> flags img)"
proof -
  obtain r1 i1 o1 where h: "acquire_hashes config e img = (r1, i1, o1)"
    by (cases "acquire_hashes config e img") auto
  obtain r2 i2 o2 where c: "acquire_codesign x config e kern (image_exec_close i1) = (r2, i2, o2)"
    by (cases "acquire_codesign x config e kern (image_exec_close i1)") auto
  have cl: "script (image_exec_close i1) = script i1 \<and> path (image_exec_close i1) = path i1 \<and>
            flags (image_exec_close i1) = flags i1"
    by (simp add: image_exec_close_def)
  from assms h c have "img' = img \<or> img' = i1 \<or> img' = i2"
    by (auto simp: image_exec_acquire_def split: if_splits)
  with acquire_hashes_keeps [OF h] acquire_codesign_keeps [OF c] cl show ?thesis
    by auto
qed

text \<open>
  \<open>image_exec_acquire\<close> and \<open>image_exec_close\<close> on an image of a
  reference-counted heap.
\<close>

lemma acquire_close_at_total:
  assumes "refs_ok rk (heap s) {} n" and "heap s a = Some ei"
    and "image_exec_acquire x config e False ei = (r, ei1, ops)"
  shows "\<exists>s1. acquire_close_at x config e a s = Some s1 \<and>
           heap s1 = (heap s)(a \<mapsto> image_exec_close ei1) \<and>
           refs_ok rk (heap s1) {} n"
proof -
  let ?s1 = "s\<lparr>heap := (heap s)(a \<mapsto> image_exec_close ei1), cache_ops := cache_ops s @ ops\<rparr>"
  have r: "acquire_close_at x config e a s = Some ?s1"
    using assms(2,3) by (simp add: acquire_close_at_def)
  have k: "prev (image_exec_close ei1) = prev ei" "script (image_exec_close ei1) = script ei"
    "refs (image_exec_close ei1) = refs ei"
    using image_exec_acquire_links [OF assms(3)] image_exec_acquire_keeps [OF assms(3)]
    by (simp_all add: image_exec_close_def)
  from refs_ok_upd [OF assms(1,2) k] have "refs_ok rk (heap ?s1) {} n" by simp
  with r show ?thesis by simp
qed

lemma heap_shrinks_fields: "heap_shrinks h h' \<Longrightarrow> fields_kept h h'"
  unfolding heap_shrinks_def fields_kept_def
proof (intro allI impI)
  fix b ei'
  assume a: "\<forall>b ei'. h' b = Some ei' \<longrightarrow> (\<exists>ei. h b = Some ei \<and> ei' = ei\<lparr>refs := refs ei'\<rparr>)"
    and b: "h' b = Some ei'"
  then obtain ei where e: "h b = Some ei" "ei' = ei\<lparr>refs := refs ei'\<rparr>" by blast
  have "path (ei\<lparr>refs := refs ei'\<rparr>) = path ei" "flags (ei\<lparr>refs := refs ei'\<rparr>) = flags ei"
    "image_exec_t.codesign (ei\<lparr>refs := refs ei'\<rparr>) = image_exec_t.codesign ei"
    "script (ei\<lparr>refs := refs ei'\<rparr>) = script ei"
    by simp_all
  with e(2) have "path ei' = path ei \<and> flags ei' = flags ei \<and>
      image_exec_t.codesign ei' = image_exec_t.codesign ei \<and> script ei' = script ei"
    by simp
  with e(1) show "\<exists>ei. h b = Some ei \<and> path ei' = path ei \<and> flags ei' = flags ei \<and>
           image_exec_t.codesign ei' = image_exec_t.codesign ei \<and> script ei' = script ei"
    by blast
qed

lemma fields_kept_refl: "fields_kept h h"
  by (simp add: fields_kept_def)

lemma fields_kept_cut:
  assumes "fields_kept h h1" and "h1 a = Some img1"
  shows "fields_kept h (h1(a \<mapsto> img1\<lparr>prev := None\<rparr>))"
  unfolding fields_kept_def
proof (intro allI impI)
  fix b ei'
  assume b: "(h1(a \<mapsto> img1\<lparr>prev := None\<rparr>)) b = Some ei'"
  have k: "\<exists>ei. h b = Some ei \<and> path ei' = path ei \<and> flags ei' = flags ei \<and>
           image_exec_t.codesign ei' = image_exec_t.codesign ei \<and> script ei' = script ei"
    if "h1 b = Some ei'" for b ei'
    using assms(1) that unfolding fields_kept_def by blast
  show "\<exists>ei. h b = Some ei \<and> path ei' = path ei \<and> flags ei' = flags ei \<and>
           image_exec_t.codesign ei' = image_exec_t.codesign ei \<and> script ei' = script ei"
  proof (cases "b = a")
    case True
    with b have e: "ei' = img1\<lparr>prev := None\<rparr>" by auto
    from k [OF assms(2)] True e show ?thesis by auto
  next
    case False
    with b have "h1 b = Some ei'" by simp
    from k [OF this] show ?thesis .
  qed
qed

lemma prune_fields:
  "image_exec_prune_ancestors config a level s = Some s' \<Longrightarrow>
     fields_kept (heap s) (heap s')"
proof (induction config a level s rule: image_exec_prune_ancestors.induct)
  case (1 config a level s)
  from "1.prems" obtain img where img: "heap s a = Some img"
    by (cases "heap s a") (auto simp: image_exec_prune_ancestors.simps [of config a level s])
  show ?case
  proof (cases "prev img")
    case None
    with "1.prems" img have "s' = s"
      by (simp add: image_exec_prune_ancestors.simps [of config a level s])
    then show ?thesis by (simp add: fields_kept_refl)
  next
    case (Some p)
    show ?thesis
    proof (cases "ancestors config \<le> level")
      case True
      with "1.prems" img Some obtain s1 img1 where
        f: "image_exec_free p s = Some s1" and
        h1: "heap s1 a = Some img1" and
        e: "s' = s1\<lparr>heap := (heap s1)(a \<mapsto> img1\<lparr>prev := None\<rparr>)\<rparr>"
        by (auto simp: image_exec_prune_ancestors.simps [of config a level s]
              bind_eq_Some_conv split: option.splits)
      from image_exec_free_frame [OF f] have "fields_kept (heap s) (heap s1)"
        by (simp add: heap_shrinks_fields)
      from fields_kept_cut [OF this h1]
      have "fields_kept (heap s) (heap (s1\<lparr>heap := (heap s1)(a \<mapsto> img1\<lparr>prev := None\<rparr>)\<rparr>))"
        by simp
      then show ?thesis unfolding e .
    next
      case False
      show ?thesis
      proof (cases "refs img = 1")
        case True
        with "1.prems" img Some False have
          "image_exec_prune_ancestors config p (level + 1) s = Some s'"
          by (simp add: image_exec_prune_ancestors.simps [of config a level s])
        from "1.IH" [OF img Some False True this] show ?thesis .
      next
        case r: False
        with "1.prems" img Some False have "s' = s"
          by (simp add: image_exec_prune_ancestors.simps [of config a level s])
        then show ?thesis by (simp add: fields_kept_refl)
      qed
    qed
  qed
qed

text \<open>
  \<open>image_exec_work\<close> on an image of a reference-counted heap: every step
  returns.  \<open>s2\<close> is the state before the pruning and \<open>s3\<close> the state after it.
\<close>

lemma work_run:
  assumes "refs_ok rk (heap s) {} n" and "heap s a = Some ei"
    and "image_exec_acquire x config e1 False ei = (r1, ei1, ops1)"
  shows "\<exists>s2 s3 ei3.
           links_same (heap s) (heap s2) \<and>
           (if ancestors config < SIZE_MAX then image_exec_prune_ancestors config a 0 s2
            else Some s2) = Some s3 \<and>
           refs_ok rk (heap s3) {} n \<and>
           heap s3 a = Some ei3 \<and> flags ei3 = flags ei1 \<and>
           image_exec_t.codesign ei3 = image_exec_t.codesign ei1 \<and>
           path ei3 = path ei \<and> script ei3 = script ei \<and>
           (\<forall>sc. script ei = Some sc \<longrightarrow>
              (\<exists>sie sie3. heap s sc = Some sie \<and> heap s3 sc = Some sie3 \<and> path sie3 = path sie)) \<and>
           image_exec_work x config e1 e2 a s =
             (if EIFLAG_ENOMEM \<in> flags ei3 then Some (- 1, s3\<lparr>ooms := ooms s3 + 1\<rparr>)
              else if EIFLAG_NOLOG \<in> flags ei3 then Some (- 1, s3)
              else image_exec_match_suppressions s3 a (suppress_image_exec_by_ident config)
                     (suppress_image_exec_by_path config) \<bind>
                   (\<lambda>m. Some (if m then - 1 else 0, s3)))"
proof -
  let ?c1 = "image_exec_close ei1"
  from acquire_close_at_total [OF assms] obtain s1 where
    r1: "acquire_close_at x config e1 a s = Some s1" and
    h1: "heap s1 = (heap s)(a \<mapsto> ?c1)" and
    ok1: "refs_ok rk (heap s1) {} n"
    by blast
  have a1: "heap s1 a = Some ?c1" using h1 by simp
  have k1: "script ?c1 = script ei" "path ?c1 = path ei" "flags ?c1 = flags ei1"
    "image_exec_t.codesign ?c1 = image_exec_t.codesign ei1"
    using image_exec_acquire_keeps [OF assms(3)] by (simp_all add: image_exec_close_def)
  have l1: "links_same (heap s) (heap s1)" using acquire_close_at_links [OF r1] .
  have "\<exists>s2. (case script ?c1 of None \<Rightarrow> Some s1
                | Some sc \<Rightarrow> acquire_close_at x config e2 sc s1) = Some s2 \<and>
          refs_ok rk (heap s2) {} n \<and> heap s2 a = Some ?c1 \<and> links_same (heap s1) (heap s2) \<and>
          (\<forall>sc. script ei = Some sc \<longrightarrow>
              (\<exists>sie sie2. heap s sc = Some sie \<and> heap s2 sc = Some sie2 \<and> path sie2 = path sie))"
  proof (cases "script ei")
    case None
    with k1 ok1 a1 show ?thesis by (simp add: links_same_refl)
  next
    case (Some sc)
    then have "link_of Script ei = Some sc" by (simp add: link_of_def)
    with assms(1,2) have r: "rk sc < rk a" and "heap s sc \<noteq> None"
      unfolding refs_ok_def by blast+
    then obtain sie where sie: "heap s sc = Some sie" by auto
    from r have ne: "sc \<noteq> a" by auto
    with h1 sie have sie1: "heap s1 sc = Some sie" by simp
    obtain r2 sie2 ops2 where
      q: "image_exec_acquire x config e2 False sie = (r2, sie2, ops2)"
      by (cases "image_exec_acquire x config e2 False sie") auto
    from acquire_close_at_total [OF ok1 sie1 q] obtain s2 where
      r2: "acquire_close_at x config e2 sc s1 = Some s2" and
      h2: "heap s2 = (heap s1)(sc \<mapsto> image_exec_close sie2)" and
      ok2: "refs_ok rk (heap s2) {} n"
      by blast
    have "path (image_exec_close sie2) = path sie"
      using image_exec_acquire_keeps [OF q] by (simp add: image_exec_close_def)
    with h2 sie have "\<exists>sie sie2. heap s sc = Some sie \<and> heap s2 sc = Some sie2 \<and>
        path sie2 = path sie" by simp
    moreover from h2 a1 ne have "heap s2 a = Some ?c1" by simp
    moreover note acquire_close_at_links [OF r2]
    ultimately show ?thesis using Some k1 r2 ok2 by simp
  qed
  then obtain s2 where
    e2: "(case script ?c1 of None \<Rightarrow> Some s1
          | Some sc \<Rightarrow> acquire_close_at x config e2 sc s1) = Some s2" and
    ok2: "refs_ok rk (heap s2) {} n" and a2: "heap s2 a = Some ?c1" and
    l2: "links_same (heap s1) (heap s2)" and
    sc2: "\<forall>sc. script ei = Some sc \<longrightarrow>
              (\<exists>sie sie2. heap s sc = Some sie \<and> heap s2 sc = Some sie2 \<and> path sie2 = path sie)"
    by blast
  have "\<exists>s3. (if ancestors config < SIZE_MAX then image_exec_prune_ancestors config a 0 s2
            else Some s2) = Some s3 \<and> refs_ok rk (heap s3) {} n \<and> heap s3 a \<noteq> None \<and>
            fields_kept (heap s2) (heap s3)"
  proof (cases "ancestors config < SIZE_MAX")
    case True
    from a2 have "heap s2 a \<noteq> None" by simp
    from prune_total [OF ok2 this, of config 0] obtain s3 where
      p: "image_exec_prune_ancestors config a 0 s2 = Some s3" and
      "refs_ok rk (heap s3) {} n" "heap s3 a \<noteq> None"
      by blast
    with prune_fields [OF p] True show ?thesis by simp
  next
    case False
    with ok2 a2 show ?thesis by (simp add: fields_kept_refl)
  qed
  then obtain s3 where
    e3: "(if ancestors config < SIZE_MAX then image_exec_prune_ancestors config a 0 s2
            else Some s2) = Some s3" and
    ok3: "refs_ok rk (heap s3) {} n" and "heap s3 a \<noteq> None" and
    fk: "fields_kept (heap s2) (heap s3)"
    by blast
  then obtain ei3 where a3: "heap s3 a = Some ei3" by auto
  from fk a3 a2 have k3: "path ei3 = path ?c1" "flags ei3 = flags ?c1"
    "image_exec_t.codesign ei3 = image_exec_t.codesign ?c1" "script ei3 = script ?c1"
    unfolding fields_kept_def by fastforce+
  have sc3: "\<forall>sc. script ei = Some sc \<longrightarrow>
              (\<exists>sie sie3. heap s sc = Some sie \<and> heap s3 sc = Some sie3 \<and> path sie3 = path sie)"
  proof (intro allI impI)
    fix sc
    assume s: "script ei = Some sc"
    with sc2 obtain sie sie2 where
      q: "heap s sc = Some sie" "heap s2 sc = Some sie2" "path sie2 = path sie" by blast
    from s k3 k1 have "link_of Script ei3 = Some sc" by (simp add: link_of_def)
    with ok3 a3 have "heap s3 sc \<noteq> None" unfolding refs_ok_def by blast
    then obtain sie3 where s3: "heap s3 sc = Some sie3" by auto
    with fk q(2) have "path sie3 = path sie2" unfolding fields_kept_def by fastforce
    with q s3 show "\<exists>sie sie3. heap s sc = Some sie \<and> heap s3 sc = Some sie3 \<and>
        path sie3 = path sie" by simp
  qed
  have w: "image_exec_work x config e1 e2 a s =
             (if EIFLAG_ENOMEM \<in> flags ei3 then Some (- 1, s3\<lparr>ooms := ooms s3 + 1\<rparr>)
              else if EIFLAG_NOLOG \<in> flags ei3 then Some (- 1, s3)
              else image_exec_match_suppressions s3 a (suppress_image_exec_by_ident config)
                     (suppress_image_exec_by_path config) \<bind>
                   (\<lambda>m. Some (if m then - 1 else 0, s3)))"
    unfolding image_exec_work_def using r1 a1 e2 e3 a3 by simp
  have l: "links_same (heap s) (heap s2)" using links_same_trans [OF l1 l2] .
  from k3 k1 have k: "flags ei3 = flags ei1"
    "image_exec_t.codesign ei3 = image_exec_t.codesign ei1" "path ei3 = path ei"
    "script ei3 = script ei" by simp_all
  from l e3 ok3 a3 k sc3 w show ?thesis by blast
qed

lemma match_suppressions_total:
  "heap s a = Some ei \<Longrightarrow> (\<forall>sc. script ei = Some sc \<longrightarrow> heap s sc \<noteq> None) \<Longrightarrow>
   \<exists>m. image_exec_match_suppressions s a by_ident by_path = Some m"
  by (auto simp: image_exec_match_suppressions_def split: option.splits)

lemma chain_exists:
  assumes "refs_ok rk h {} n" and "h a \<noteq> None"
  shows "\<exists>xs. ancestor_chain h (Some a) (a # xs)"
  using assms(2)
proof (induction "rk a" arbitrary: a rule: less_induct)
  case less
  then obtain ei where ei: "h a = Some ei" by auto
  show ?case
  proof (cases "prev ei")
    case None
    with ei have "ancestor_chain h (Some a) (a # [])" by simp
    then show ?thesis by blast
  next
    case (Some p)
    then have "link_of Prev ei = Some p" by (simp add: link_of_def)
    with assms(1) ei have "rk p < rk a" "h p \<noteq> None" unfolding refs_ok_def by blast+
    from less.hyps [OF this] obtain xs where "ancestor_chain h (Some p) (p # xs)" by blast
    with ei Some have "ancestor_chain h (Some a) (a # p # xs)" by simp
    then show ?thesis by blast
  qed
qed


lemma held_by_numeral:
  "held_by h D (numeral k) b = held_by h D (pred_numeral k) b + holds h D (pred_numeral k) b"
  by (simp add: numeral_eq_Suc)

lemma ex_chain_state_refs_ok:
  "refs_ok (\<lambda>a. 20 - a) (heap ex_chain_state) {} (brk ex_chain_state)"
  unfolding refs_ok_def
  by (auto simp: ex_chain_state_def ex_state_def ex_done_def ex_hashed_def ex_opened_def
      ex_image_def link_of_def held_by_numeral holds_def split: if_splits link.splits)


lemma work_total:
  assumes "refs_ok rk (heap s) {} n" and "heap s a = Some ei"
  shows "\<exists>rv s' s2 s3. image_exec_work x config e1 e2 a s = Some (rv, s') \<and>
           heap s' = heap s3 \<and> links_same (heap s) (heap s2) \<and>
           (if ancestors config < SIZE_MAX then image_exec_prune_ancestors config a 0 s2
            else Some s2) = Some s3 \<and>
           refs_ok rk (heap s3) {} n \<and> heap s3 a \<noteq> None"
proof -
  let ?bi = "suppress_image_exec_by_ident config"
  let ?bp = "suppress_image_exec_by_path config"
  obtain r1 ei1 ops1 where q: "image_exec_acquire x config e1 False ei = (r1, ei1, ops1)"
    by (cases "image_exec_acquire x config e1 False ei") auto
  from work_run [OF assms q, of e2] obtain s2 s3 ei3 where
    l: "links_same (heap s) (heap s2)" and
    p: "(if ancestors config < SIZE_MAX then image_exec_prune_ancestors config a 0 s2
            else Some s2) = Some s3" and
    ok3: "refs_ok rk (heap s3) {} n" and
    a3: "heap s3 a = Some ei3" and
    w: "image_exec_work x config e1 e2 a s =
             (if EIFLAG_ENOMEM \<in> flags ei3 then Some (- 1, s3\<lparr>ooms := ooms s3 + 1\<rparr>)
              else if EIFLAG_NOLOG \<in> flags ei3 then Some (- 1, s3)
              else image_exec_match_suppressions s3 a ?bi ?bp \<bind>
                   (\<lambda>m. Some (if m then - 1 else 0, s3)))"
    by blast
  have "\<forall>sc. script ei3 = Some sc \<longrightarrow> heap s3 sc \<noteq> None"
  proof (intro allI impI)
    fix sc
    assume "script ei3 = Some sc"
    then have "link_of Script ei3 = Some sc" by (simp add: link_of_def)
    with ok3 a3 show "heap s3 sc \<noteq> None" unfolding refs_ok_def by blast
  qed
  from match_suppressions_total [OF a3 this] obtain m where
    m: "image_exec_match_suppressions s3 a ?bi ?bp = Some m" by blast
  from w m have "\<exists>rv s'. image_exec_work x config e1 e2 a s = Some (rv, s') \<and> heap s' = heap s3"
    by (cases "EIFLAG_ENOMEM \<in> flags ei3"; cases "EIFLAG_NOLOG \<in> flags ei3") simp_all
  with l p ok3 a3 show ?thesis by blast
qed


section \<open>Properties of the work function\<close>

lemma match_suppressions_iff:
  "image_exec_match_suppressions s a by_ident by_path = Some m \<Longrightarrow> heap s a = Some ei \<Longrightarrow>
   m \<longleftrightarrow> ((\<exists>cs. image_exec_t.codesign ei = Some cs \<and> is_good cs \<and>
             ((\<exists>i. ident cs = Some i \<and> i \<in> by_ident) \<or> (\<exists>t. teamid cs = Some t \<and> t \<in> by_ident))) \<or>
         path ei \<in> by_path \<or>
         (\<exists>sc sie. script ei = Some sc \<and> heap s sc = Some sie \<and> path sie \<in> by_path))"
  by (auto simp: image_exec_match_suppressions_def strset_contains_def strset_contains3_def
        codesign_is_good_def split: option.splits if_splits)

text \<open>
  Claim C3.  Let the heap be reference counted, let the worker receive the image
  \<open>ei\<close> at address \<open>a\<close>, and let \<open>ei1\<close> be what \<open>image_exec_acquire\<close> makes of it.
  Then \<open>image_exec_work\<close> returns, and it returns -1 exactly when the image
  carries ENOMEM after the acquisition, or carries NOLOG (which acquisition does
  not touch), or matches the suppression sets: it has a good signature whose
  identifier or team id is in the by-ident set, or its path is in the by-path
  set, or the path of its script is.  In all other cases it returns 0.  The
  image is on the heap afterwards with the flags and the signature that the
  acquisition left.
\<close>

theorem work_suppresses_iff:
  assumes "refs_ok rk (heap s) {} (brk s)" and "heap s a = Some ei"
    and "image_exec_acquire x config e1 False ei = (r1, ei1, ops1)"
  shows "\<exists>s' ei'. image_exec_work x config e1 e2 a s =
           Some (if EIFLAG_ENOMEM \<in> flags ei1 \<or> EIFLAG_NOLOG \<in> flags ei \<or>
                    (\<exists>cs. image_exec_t.codesign ei1 = Some cs \<and> is_good cs \<and>
                       ((\<exists>i. ident cs = Some i \<and> i \<in> suppress_image_exec_by_ident config) \<or>
                        (\<exists>t. teamid cs = Some t \<and> t \<in> suppress_image_exec_by_ident config))) \<or>
                    path ei \<in> suppress_image_exec_by_path config \<or>
                    (\<exists>sc sie. script ei = Some sc \<and> heap s sc = Some sie \<and>
                       path sie \<in> suppress_image_exec_by_path config)
                 then - 1 else 0, s') \<and>
           heap s' a = Some ei' \<and> flags ei' = flags ei1 \<and>
           image_exec_t.codesign ei' = image_exec_t.codesign ei1"
proof -
  let ?bi = "suppress_image_exec_by_ident config"
  let ?bp = "suppress_image_exec_by_path config"
  from work_run [OF assms, of e2] obtain s3 ei3 where
    ok3: "refs_ok rk (heap s3) {} (brk s)" and
    a3: "heap s3 a = Some ei3" and
    k: "flags ei3 = flags ei1" "image_exec_t.codesign ei3 = image_exec_t.codesign ei1"
       "path ei3 = path ei" "script ei3 = script ei" and
    sc: "\<forall>sc. script ei = Some sc \<longrightarrow>
              (\<exists>sie sie3. heap s sc = Some sie \<and> heap s3 sc = Some sie3 \<and> path sie3 = path sie)" and
    w: "image_exec_work x config e1 e2 a s =
             (if EIFLAG_ENOMEM \<in> flags ei3 then Some (- 1, s3\<lparr>ooms := ooms s3 + 1\<rparr>)
              else if EIFLAG_NOLOG \<in> flags ei3 then Some (- 1, s3)
              else image_exec_match_suppressions s3 a ?bi ?bp \<bind>
                   (\<lambda>m. Some (if m then - 1 else 0, s3)))"
    by blast
  have nl: "EIFLAG_NOLOG \<in> flags ei1 \<longleftrightarrow> EIFLAG_NOLOG \<in> flags ei"
    using image_exec_acquire_keeps [OF assms(3)] by simp
  from sc k have "\<forall>sc. script ei3 = Some sc \<longrightarrow> heap s3 sc \<noteq> None" by auto
  from match_suppressions_total [OF a3 this] obtain m where
    m: "image_exec_match_suppressions s3 a ?bi ?bp = Some m" by blast
  have mi: "m \<longleftrightarrow>
      ((\<exists>cs. image_exec_t.codesign ei1 = Some cs \<and> is_good cs \<and>
            ((\<exists>i. ident cs = Some i \<and> i \<in> ?bi) \<or> (\<exists>t. teamid cs = Some t \<and> t \<in> ?bi))) \<or>
       path ei \<in> ?bp \<or>
       (\<exists>sc sie. script ei = Some sc \<and> heap s sc = Some sie \<and> path sie \<in> ?bp))"
  proof -
    have "(\<exists>sc sie. script ei3 = Some sc \<and> heap s3 sc = Some sie \<and> path sie \<in> ?bp) \<longleftrightarrow>
          (\<exists>sc sie. script ei = Some sc \<and> heap s sc = Some sie \<and> path sie \<in> ?bp)"
    proof (cases "script ei")
      case None
      with k(4) show ?thesis by simp
    next
      case (Some c)
      with sc obtain sie sie3 where
        q: "heap s c = Some sie" "heap s3 c = Some sie3" "path sie3 = path sie" by blast
      with Some k(4) show ?thesis by simp
    qed
    with match_suppressions_iff [OF m a3] k show ?thesis by simp
  qed
  show ?thesis
  proof (cases "EIFLAG_ENOMEM \<in> flags ei1")
    case True
    with w k have "image_exec_work x config e1 e2 a s = Some (- 1, s3\<lparr>ooms := ooms s3 + 1\<rparr>)"
      by simp
    moreover have "heap (s3\<lparr>ooms := ooms s3 + 1\<rparr>) a = Some ei3" using a3 by simp
    ultimately show ?thesis using True k by (intro exI [of _ "s3\<lparr>ooms := ooms s3 + 1\<rparr>"] exI [of _ ei3]) simp
  next
    case False
    note ne = False
    show ?thesis
    proof (cases "EIFLAG_NOLOG \<in> flags ei")
      case True
      with w k ne nl have "image_exec_work x config e1 e2 a s = Some (- 1, s3)" by simp
      with True a3 k show ?thesis by (intro exI [of _ s3] exI [of _ ei3]) simp
    next
      case False
      with w k ne nl m have "image_exec_work x config e1 e2 a s = Some (if m then - 1 else 0, s3)"
        by simp
      with False ne a3 k mi show ?thesis by (intro exI [of _ s3] exI [of _ ei3]) simp
    qed
  qed
qed

theorem work_suppresses_iff_witness:
  "refs_ok (\<lambda>a. 20 - a) (heap ex_chain_state) {} (brk ex_chain_state) \<and>
   (\<exists>s'. image_exec_work ex_extern ex_config ex_acq_env ex_acq_env 10 ex_chain_state
            = Some (0, s')) \<and>
   (\<exists>s'. image_exec_work ex_extern (ex_config\<lparr>suppress_image_exec_by_path := {''/bin/ls''}\<rparr>)
            ex_acq_env ex_acq_env 10 ex_chain_state = Some (- 1, s')) \<and>
   (\<exists>s'. image_exec_work ex_extern ex_config ex_acq_env ex_acq_env 10
            (ex_chain_state\<lparr>heap := (heap ex_chain_state)
               (10 \<mapsto> ex_done\<lparr>prev := Some 11, refs := 2, flags := {EIFLAG_NOLOG}\<rparr>)\<rparr>)
            = Some (- 1, s'))"
proof -
  let ?i = "ex_done\<lparr>prev := Some 11, refs := 2\<rparr>"
  let ?j = "ex_done\<lparr>prev := Some 11, refs := 2, flags := {EIFLAG_NOLOG}\<rparr>"
  let ?c = "ex_config\<lparr>suppress_image_exec_by_path := {''/bin/ls''}\<rparr>"
  let ?t = "ex_chain_state\<lparr>heap := (heap ex_chain_state)(10 \<mapsto> ?j)\<rparr>"
  have ok: "refs_ok (\<lambda>a. 20 - a) (heap ex_chain_state) {} (brk ex_chain_state)"
    by (rule ex_chain_state_refs_ok)
  have h: "heap ex_chain_state 10 = Some ?i"
    by (simp add: ex_chain_state_def)
  have a1: "image_exec_acquire ex_extern ex_config ex_acq_env False ?i = (0, ?i, [])"
    by (simp add: image_exec_acquire_def ex_done_def)
  have a2: "image_exec_acquire ex_extern ?c ex_acq_env False ?i = (0, ?i, [])"
    by (simp add: image_exec_acquire_def ex_done_def)
  have okt: "refs_ok (\<lambda>a. 20 - a) (heap ?t) {} (brk ?t)"
    unfolding refs_ok_def
    by (auto simp: ex_chain_state_def ex_state_def ex_done_def ex_hashed_def ex_opened_def
      ex_image_def link_of_def held_by_numeral holds_def split: if_splits link.splits)
  have ht: "heap ?t 10 = Some ?j" by simp
  obtain r3 i3 o3 where a3: "image_exec_acquire ex_extern ex_config ex_acq_env False ?j = (r3, i3, o3)"
    by (cases "image_exec_acquire ex_extern ex_config ex_acq_env False ?j") auto
  have 1: "\<exists>s'. image_exec_work ex_extern ex_config ex_acq_env ex_acq_env 10 ex_chain_state
            = Some (0, s')"
    using work_suppresses_iff [OF ok h a1, of ex_acq_env]
    by (auto simp: ex_done_def ex_hashed_def ex_opened_def ex_image_def ex_config_def
        ex_chain_state_def)
  have 2: "\<exists>s'. image_exec_work ex_extern ?c ex_acq_env ex_acq_env 10 ex_chain_state
            = Some (- 1, s')"
    using work_suppresses_iff [OF ok h a2, of ex_acq_env]
    by (auto simp: ex_done_def ex_hashed_def ex_opened_def ex_image_def ex_config_def)
  have 3: "\<exists>s'. image_exec_work ex_extern ex_config ex_acq_env ex_acq_env 10 ?t = Some (- 1, s')"
    using work_suppresses_iff [OF okt ht a3, of ex_acq_env]
    by auto
  from ok 1 2 3 show ?thesis by blast
qed


section \<open>The ancestor chain after the work function\<close>

lemma one_less_SIZE_MAX: "(1 :: size_t) < SIZE_MAX"
  by (simp add: SIZE_MAX_def)

text \<open>
  Claim C5, as stated, bounds the ancestor chain of every image that the worker
  has processed by the configured number of ancestors.  The image at address 10
  is held twice (by its process and by the worker), as an image usually is
  while it is worked on; with \<open>ancestors = 1\<close> the pruning stops at it, and after
  \<open>image_exec_work\<close> its chain still has the two ancestors 11 and 12.
\<close>

theorem work_chain_exceeds_ancestors_counterexample:
  "image_exec_work ex_extern ex_config ex_acq_env ex_acq_env 10 ex_chain_state \<noteq> None \<and>
   ancestor_chain
     (heap (snd (the (image_exec_work ex_extern ex_config ex_acq_env ex_acq_env 10 ex_chain_state))))
     (Some 10) [10, 11, 12] \<and>
   \<not> length [11, 12 :: addr] \<le> unat (ancestors ex_config)"
  by (simp add: image_exec_work_def acquire_close_at_def ex_chain_state_def ex_state_def
      image_exec_acquire_def ex_done_def ex_hashed_def ex_opened_def ex_image_def
      image_exec_close_def ex_config_def one_less_SIZE_MAX image_exec_match_suppressions_def
      strset_contains_def image_exec_prune_ancestors.simps)

text \<open>
  Claim C5, amended.  Let the heap be reference counted, \<open>ancestors\<close> below
  SIZE_MAX, and let the image at \<open>a\<close> have the ancestor chain \<open>xs\<close>.  Then
  \<open>image_exec_work\<close> returns, and the image has an ancestor chain afterwards.
  Pruning descends past an image only when its reference count is exactly 1.
  If the image and its ancestors down to depth \<open>ancestors\<close>, that depth
  included, all have reference count 1, then the chain afterwards has at most
  \<open>ancestors\<close> elements.  If the image or one of its ancestors at a depth below
  \<open>ancestors\<close> has another reference count, nothing is pruned: the image has the
  same ancestor chain afterwards.
\<close>

theorem work_prunes_exclusive_chain:
  assumes "refs_ok rk (heap s) {} (brk s)"
    and "ancestors config < SIZE_MAX"
    and "ancestor_chain (heap s) (Some a) (a # xs)"
  shows "\<exists>rv s'. image_exec_work x config e1 e2 a s = Some (rv, s') \<and>
          (\<exists>ys. ancestor_chain (heap s') (Some a) (a # ys)) \<and>
          ((\<forall>i < length (a # xs). i \<le> unat (ancestors config) \<longrightarrow>
               refs (the (heap s ((a # xs) ! i))) = 1) \<longrightarrow>
           (\<forall>ys. ancestor_chain (heap s') (Some a) (a # ys) \<longrightarrow>
               length ys \<le> unat (ancestors config))) \<and>
          ((\<exists>j < length (a # xs). j < unat (ancestors config) \<and>
               refs (the (heap s ((a # xs) ! j))) \<noteq> 1) \<longrightarrow>
           ancestor_chain (heap s') (Some a) (a # xs))"
proof -
  from assms(3) obtain ei where ei: "heap s a = Some ei"
    by (auto split: option.splits)
  from work_total [OF assms(1) ei, of x config e1 e2] assms(2) obtain rv s' s2 s3 where
    w: "image_exec_work x config e1 e2 a s = Some (rv, s')" and
    h: "heap s' = heap s3" and
    l: "links_same (heap s) (heap s2)" and
    p: "image_exec_prune_ancestors config a 0 s2 = Some s3" and
    ok3: "refs_ok rk (heap s3) {} (brk s)" and a3: "heap s3 a \<noteq> None"
    by auto
  have c2: "ancestor_chain (heap s2) (Some a) (a # xs)"
    using assms(3) by (simp only: links_same_chain [OF l])
  have r: "refs (the (heap s2 ((a # xs) ! i))) = refs (the (heap s ((a # xs) ! i)))"
    if "i < length (a # xs)" for i
  proof -
    from ancestor_chain_nth [OF assms(3) that] obtain ei where
      "heap s ((a # xs) ! i) = Some ei" by blast
    with links_same_refs [OF l this] show ?thesis by simp
  qed
  have ex: "\<exists>ys. ancestor_chain (heap s') (Some a) (a # ys)"
    using chain_exists [OF ok3 a3] h by simp
  have one: "\<forall>ys. ancestor_chain (heap s') (Some a) (a # ys) \<longrightarrow>
             length ys \<le> unat (ancestors config)"
    if o: "\<forall>i < length (a # xs). i \<le> unat (ancestors config) \<longrightarrow>
             refs (the (heap s ((a # xs) ! i))) = 1"
  proof (intro allI impI)
    fix ys
    assume "ancestor_chain (heap s') (Some a) (a # ys)"
    then have c3: "ancestor_chain (heap s3) (Some a) (a # ys)" using h by simp
    have o2: "\<forall>i < length (a # xs). unat (0 :: size_t) + i < unat (ancestors config) \<longrightarrow>
             refs (the (heap s2 ((a # xs) ! i))) = 1"
      using o r by simp
    from prune_bound [OF p c2 o2 _ c3] show "length ys \<le> unat (ancestors config)" by simp
  qed
  have two: "ancestor_chain (heap s') (Some a) (a # xs)"
    if "\<exists>j < length (a # xs). j < unat (ancestors config) \<and>
             refs (the (heap s ((a # xs) ! j))) \<noteq> 1"
  proof -
    from that r have "\<exists>j < length (a # xs). unat (0 :: size_t) + j < unat (ancestors config) \<and>
             refs (the (heap s2 ((a # xs) ! j))) \<noteq> 1"
      by auto
    from prune_shared_noop [OF c2 this] p have "s3 = s2" by simp
    with c2 h show ?thesis by simp
  qed
  from w ex one two show ?thesis by blast
qed

theorem work_prunes_exclusive_chain_witness:
  "refs_ok (\<lambda>a. 20 - a) (heap ex_chain_owned) {} (brk ex_chain_owned) \<and>
   ancestor_chain (heap ex_chain_owned) (Some 10) [10, 11, 12] \<and>
   refs (the (heap ex_chain_owned 10)) = 1 \<and> refs (the (heap ex_chain_owned 11)) = 1 \<and>
   (\<exists>rv s'. image_exec_work ex_extern ex_config ex_acq_env ex_acq_env 10 ex_chain_owned
              = Some (rv, s') \<and>
            (\<exists>ys. ancestor_chain (heap s') (Some 10) (10 # ys) \<and>
                  length ys \<le> unat (ancestors ex_config))) \<and>
   refs (the (heap ex_chain_state 10)) = 2 \<and>
   (\<exists>rv s'. image_exec_work ex_extern ex_config ex_acq_env ex_acq_env 10 ex_chain_state
              = Some (rv, s') \<and>
            ancestor_chain (heap s') (Some 10) [10, 11, 12])"
proof -
  have ok: "refs_ok (\<lambda>a. 20 - a) (heap ex_chain_owned) {} (brk ex_chain_owned)"
    unfolding refs_ok_def
    by (auto simp: ex_chain_owned_def ex_chain_state_def ex_state_def ex_done_def
      ex_hashed_def ex_opened_def ex_image_def link_of_def held_by_numeral holds_def
      split: if_splits link.splits)
  have c0: "ancestor_chain (heap ex_chain_owned) (Some 10) (10 # [11, 12])"
    by (simp add: ex_chain_owned_def ex_chain_state_def ex_state_def ex_done_def
      ex_hashed_def ex_opened_def ex_image_def)
  have c1: "ancestor_chain (heap ex_chain_state) (Some 10) (10 # [11, 12])"
    by (simp add: ex_chain_state_def ex_state_def ex_done_def
      ex_hashed_def ex_opened_def ex_image_def)
  have lim: "ancestors ex_config < SIZE_MAX"
    by (simp add: ex_config_def one_less_SIZE_MAX)
  have r: "refs (the (heap ex_chain_owned 10)) = 1" "refs (the (heap ex_chain_owned 11)) = 1"
    "refs (the (heap ex_chain_state 10)) = 2"
    by (simp_all add: ex_chain_owned_def ex_chain_state_def ex_state_def ex_done_def
      ex_hashed_def ex_opened_def ex_image_def)
  have o: "\<forall>i < length (10 # [11, 12 :: addr]). i \<le> unat (ancestors ex_config) \<longrightarrow>
             refs (the (heap ex_chain_owned ((10 # [11, 12]) ! i))) = 1"
    using r by (auto simp: ex_config_def less_Suc_eq)
  have j: "\<exists>j < length (10 # [11, 12 :: addr]). j < unat (ancestors ex_config) \<and>
             refs (the (heap ex_chain_state ((10 # [11, 12]) ! j))) \<noteq> 1"
    using r by (intro exI [of _ 0]) (simp add: ex_config_def)
  have 1: "\<exists>rv s'. image_exec_work ex_extern ex_config ex_acq_env ex_acq_env 10 ex_chain_owned
              = Some (rv, s') \<and>
            (\<exists>ys. ancestor_chain (heap s') (Some 10) (10 # ys) \<and>
                  length ys \<le> unat (ancestors ex_config))"
    using work_prunes_exclusive_chain [OF ok lim c0, of ex_extern ex_acq_env ex_acq_env] o
    by blast
  have 2: "\<exists>rv s'. image_exec_work ex_extern ex_config ex_acq_env ex_acq_env 10 ex_chain_state
              = Some (rv, s') \<and>
            ancestor_chain (heap s') (Some 10) [10, 11, 12]"
    using work_prunes_exclusive_chain [OF ex_chain_state_refs_ok lim c1,
        of ex_extern ex_acq_env ex_acq_env] j
    by blast
  from ok c0 r 1 2 show ?thesis by simp
qed

section \<open>Properties of the prepq lookup\<close>

lemma flags_kept_refl: "flags_kept h h"
  by (simp add: flags_kept_def)

lemma flags_kept_trans:
  assumes "flags_kept h1 h2" and "flags_kept h2 h3"
  shows "flags_kept h1 h3"
  unfolding flags_kept_def
proof (intro allI impI)
  fix b ei3
  assume "h3 b = Some ei3"
  with assms(2) obtain ei2 where 2: "h2 b = Some ei2" "flags ei2 = flags ei3"
    unfolding flags_kept_def by blast
  with assms(1) obtain ei1 where 1: "h1 b = Some ei1" "flags ei1 = flags ei2"
    unfolding flags_kept_def by blast
  with 2 show "\<exists>ei. h1 b = Some ei \<and> flags ei = flags ei3" by simp
qed

lemma heap_shrinks_flags_kept: "heap_shrinks h h' \<Longrightarrow> flags_kept h h'"
  unfolding heap_shrinks_def flags_kept_def
proof (intro allI impI)
  fix b ei'
  assume a: "\<forall>b ei'. h' b = Some ei' \<longrightarrow> (\<exists>ei. h b = Some ei \<and> ei' = ei\<lparr>refs := refs ei'\<rparr>)"
    and b: "h' b = Some ei'"
  then obtain ei where e: "h b = Some ei" "ei' = ei\<lparr>refs := refs ei'\<rparr>" by blast
  from e(2) have "flags ei' = flags (ei\<lparr>refs := refs ei'\<rparr>)" by simp
  then have "flags ei = flags ei'" by simp
  with e(1) show "\<exists>ei. h b = Some ei \<and> flags ei = flags ei'" by blast
qed

lemma pq_skip_flags_kept:
  assumes "pq_skip x n ei s = Some s1" and "heap s n = Some ei"
  shows "flags_kept (heap s) (heap s1)"
proof -
  let ?s0 = "s\<lparr>pqskip := pqskip s + 1, heap := (heap s)(n \<mapsto> ei\<lparr>pqttl := pqttl ei + 1\<rparr>)\<rparr>"
  have k0: "flags_kept (heap s) (heap ?s0)"
    using assms(2) by (simp add: flags_kept_def)
  show ?thesis
  proof (cases "pqttl ei + 1 = MAXPQTTL x")
    case False
    with assms(1) have "s1 = ?s0" by (simp add: pq_skip_def Let_def)
    with k0 show ?thesis by simp
  next
    case True
    with assms(1) obtain s2 where
      f: "image_exec_free n (prepq_remove_existing n ?s0) = Some s2" and
      e: "s1 = s2\<lparr>pqdrop := pqdrop s2 + 1\<rparr>"
      by (auto simp: pq_skip_def Let_def bind_eq_Some_conv)
    from image_exec_free_frame [OF f]
    have "heap_shrinks (heap (prepq_remove_existing n ?s0)) (heap s2)" by simp
    then have "flags_kept (heap ?s0) (heap s2)"
      by (simp add: prepq_remove_existing_def heap_shrinks_flags_kept)
    with k0 e show ?thesis by (auto intro: flags_kept_trans)
  qed
qed

lemma prepq_lookup_loop_interp:
  assumes "prepq_lookup_loop x ppid imagepath attr av ns img None s = Some (img', interp', s')"
    and "flags_kept h0 (heap s)"
    and "\<forall>i. img = Some i \<longrightarrow> argv_has2 av \<and> (\<exists>ei. h0 i = Some ei \<and> EIFLAG_SHEBANG \<in> flags ei)"
    and "interp' \<noteq> None"
  shows "\<exists>i ei. img' = Some i \<and> h0 i = Some ei \<and> EIFLAG_SHEBANG \<in> flags ei \<and> argv_has2 av"
  using assms
proof (induction ns arbitrary: img s)
  case Nil
  then show ?case by simp
next
  case (Cons n ns)
  from Cons.prems(1) obtain ei where ei: "heap s n = Some ei"
    by (cases "heap s n") auto
  show ?case
  proof (cases "img = None")
    case True
    note inone = True
    show ?thesis
    proof (cases "pq_match_image x ppid imagepath attr ei")
      case True
      note m = True
      show ?thesis
      proof (cases "EIFLAG_SHEBANG \<in> flags ei \<and> argv_has2 av")
        case True
        with Cons.prems(1) ei inone m have
          r: "prepq_lookup_loop x ppid imagepath attr av ns (Some n) None (prepq_remove_existing n s)
              = Some (img', interp', s')"
          by simp
        from Cons.prems(2) ei True obtain ei0 where "h0 n = Some ei0" "EIFLAG_SHEBANG \<in> flags ei0"
          unfolding flags_kept_def by force
        with True have i: "\<forall>i. Some n = Some i \<longrightarrow>
            argv_has2 av \<and> (\<exists>ei. h0 i = Some ei \<and> EIFLAG_SHEBANG \<in> flags ei)"
          by simp
        have k: "flags_kept h0 (heap (prepq_remove_existing n s))"
          using Cons.prems(2) by (simp add: prepq_remove_existing_def)
        from Cons.IH [OF r k i Cons.prems(4)] show ?thesis .
      next
        case False
        with Cons.prems(1) ei inone m have "interp' = None" by auto
        with Cons.prems(4) show ?thesis by simp
      qed
    next
      case False
      with Cons.prems(1) ei inone obtain s1 where
        sk: "pq_skip x n ei s = Some s1" and
        r: "prepq_lookup_loop x ppid imagepath attr av ns img None s1 = Some (img', interp', s')"
        by (cases "pq_skip x n ei s") (auto split: if_splits)
      have k: "flags_kept h0 (heap s1)"
        using flags_kept_trans [OF Cons.prems(2) pq_skip_flags_kept [OF sk ei]] .
      from Cons.IH [OF r k Cons.prems(3) Cons.prems(4)] show ?thesis .
    qed
  next
    case False
    note isome = False
    with Cons.prems(3) have a2: "argv_has2 av" by auto
    show ?thesis
    proof (cases "pq_match_interp x ppid av ei")
      case True
      with Cons.prems(1) ei isome a2 have "img' = img" by simp
      with isome Cons.prems(3) a2 show ?thesis by auto
    next
      case False
      with Cons.prems(1) ei isome a2 obtain s1 where
        sk: "pq_skip x n ei s = Some s1" and
        r: "prepq_lookup_loop x ppid imagepath attr av ns img None s1 = Some (img', interp', s')"
        by (cases "pq_skip x n ei s") (auto split: if_splits)
      have k: "flags_kept h0 (heap s1)"
        using flags_kept_trans [OF Cons.prems(2) pq_skip_flags_kept [OF sk ei]] .
      from Cons.IH [OF r k Cons.prems(3) Cons.prems(4)] show ?thesis .
    qed
  qed
qed

text \<open>
  Claim C9.  When the loop of \<open>prepq_lookup\<close> ends with an interpreter, it also
  has an image; that image was in the heap at the start of the lookup with the
  SHEBANG flag, and argv has at least two entries.  So the assertion that ends
  \<open>prepq_lookup\<close> never fails: the lookup returns what its loop returns.
\<close>

theorem prepq_lookup_interp_has_image:
  "(prepq_lookup_loop x ppid imagepath attr av (pqlist s) None None
        (s\<lparr>pqlookup := pqlookup s + 1\<rparr>) = Some (img, interp, s') \<and> interp \<noteq> None \<longrightarrow>
      (\<exists>i ei. img = Some i \<and> heap s i = Some ei \<and> EIFLAG_SHEBANG \<in> flags ei \<and> argv_has2 av)) \<and>
   prepq_lookup x ppid imagepath attr av s =
     prepq_lookup_loop x ppid imagepath attr av (pqlist s) None None
       (s\<lparr>pqlookup := pqlookup s + 1\<rparr>)"
proof -
  have a: "\<exists>i ei. img = Some i \<and> heap s i = Some ei \<and> EIFLAG_SHEBANG \<in> flags ei \<and> argv_has2 av"
    if "prepq_lookup_loop x ppid imagepath attr av (pqlist s) None None
          (s\<lparr>pqlookup := pqlookup s + 1\<rparr>) = Some (img, interp, s')" and "interp \<noteq> None"
    for img interp s'
    using prepq_lookup_loop_interp [OF that(1), of "heap s"] that(2)
    by (simp add: flags_kept_refl)
  have "prepq_lookup x ppid imagepath attr av s =
     prepq_lookup_loop x ppid imagepath attr av (pqlist s) None None
       (s\<lparr>pqlookup := pqlookup s + 1\<rparr>)"
  proof (cases "prepq_lookup_loop x ppid imagepath attr av (pqlist s) None None
       (s\<lparr>pqlookup := pqlookup s + 1\<rparr>)")
    case None
    then show ?thesis by (simp add: prepq_lookup_def)
  next
    case (Some r)
    obtain i2 n2 s2 where r: "r = (i2, n2, s2)" by (cases r) auto
    have "\<not> (n2 \<noteq> None \<and> i2 = None)"
      using a [of i2 n2 s2] Some r by blast
    with Some r show ?thesis
      by (simp add: prepq_lookup_def)
  qed
  with a show ?thesis by blast
qed


theorem prepq_lookup_interp_has_image_witness:
  "\<exists>s'. prepq_lookup ex_extern 200 ''/tmp/x.sh'' (Some (ex_attr\<lparr>audit_attr_t.ino := 42\<rparr>))
          ex_argv ex_script_state = Some (Some 20, Some 21, s') \<and>
        EIFLAG_SHEBANG \<in> flags (the (heap ex_script_state 20)) \<and> argv_has2 ex_argv"
proof -
  obtain s' where
    run: "prepq_lookup_loop ex_extern 200 ''/tmp/x.sh'' (Some (ex_attr\<lparr>audit_attr_t.ino := 42\<rparr>))
            ex_argv (pqlist ex_script_state) None None
            (ex_script_state\<lparr>pqlookup := pqlookup ex_script_state + 1\<rparr>)
          = Some (Some 20, Some 21, s')"
    by (simp add: ex_script_state_def ex_state_def ex_argv_def argv_has2_def ex_extern_def
        pq_match_image_def pq_match_interp_def ex_done_def ex_hashed_def ex_opened_def
        ex_image_def ex_stat_def ex_attr_def prepq_remove_existing_def)
  from prepq_lookup_interp_has_image [of ex_extern 200 "''/tmp/x.sh''"
      "Some (ex_attr\<lparr>audit_attr_t.ino := 42\<rparr>)" ex_argv ex_script_state "Some 20" "Some 21" s'] run
  show ?thesis by auto
qed


section \<open>Eviction from the prepq\<close>

lemma image_exec_free_last:
  assumes "image_exec_free a s = Some s'" and "heap s a = Some ei" and "refs ei = 1"
  shows "heap s' a = None"
proof -
  from assms have "\<exists>s2. (case heap s2 a of
             None \<Rightarrow> None
           | Some img2 \<Rightarrow> Some (s2\<lparr>heap := (heap s2)(a := None), images := images s2 - 1\<rparr>))
          = Some s'"
    by (subst (asm) image_exec_free.simps) (simp add: bind_eq_Some_conv, blast)
  then obtain s2 where
    "(case heap s2 a of
             None \<Rightarrow> None
           | Some img2 \<Rightarrow> Some (s2\<lparr>heap := (heap s2)(a := None), images := images s2 - 1\<rparr>))
          = Some s'" by blast
  then have "s' = s2\<lparr>heap := (heap s2)(a := None), images := images s2 - 1\<rparr>"
    by (cases "heap s2 a") auto
  then show ?thesis by simp
qed

lemma pq_skip_evicts_last:
  assumes "pq_skip x n ei s = Some s1" and "pqttl ei + 1 = MAXPQTTL x" and "refs ei = 1"
  shows "heap s1 n = None"
proof -
  let ?s0 = "prepq_remove_existing n
    (s\<lparr>pqskip := pqskip s + 1, heap := (heap s)(n \<mapsto> ei\<lparr>pqttl := pqttl ei + 1\<rparr>)\<rparr>)"
  from assms(1,2) obtain s2 where
    f: "image_exec_free n ?s0 = Some s2" and e: "s1 = s2\<lparr>pqdrop := pqdrop s2 + 1\<rparr>"
    by (auto simp: pq_skip_def Let_def bind_eq_Some_conv)
  have "heap ?s0 n = Some (ei\<lparr>pqttl := pqttl ei + 1\<rparr>)"
    by (simp add: prepq_remove_existing_def)
  from image_exec_free_last [OF f this] assms(3) e show ?thesis by simp
qed

text \<open>
  A lookup that passes a node one skip away from MAXPQTTL whose image the queue
  alone holds has no defined result: the skip releases the image, and the loop
  then advances through the released node.
\<close>

lemma prepq_lookup_loop_evict:
  assumes "heap s n = Some ei" and "refs ei = 1" and "pqttl ei + 1 = MAXPQTTL x"
    and "\<not> pq_match_image x ppid imagepath attr ei"
  shows "prepq_lookup_loop x ppid imagepath attr av (n # ns) None None s = None"
proof (cases "pq_skip x n ei s")
  case None
  with assms(1,4) show ?thesis by simp
next
  case (Some s1)
  from pq_skip_evicts_last [OF Some assms(3,2)] have "heap s1 n = None" .
  with Some assms(1,4) show ?thesis by simp
qed

text \<open>
  Claim C4.  In the queue of \<open>ex_state\<close> the first node, the image at address 3,
  belongs to another process, is held by the queue alone and has \<open>pqttl = 1\<close>,
  one below MAXPQTTL = 2.  A lookup for process 500 skips it: the skip counts
  it, brings \<open>pqttl\<close> to MAXPQTTL, unlinks the node, releases the image and
  counts the drop, as the claim says.  The list node is part of the released
  image, and the loop goes on by reading its \<open>next\<close> field: the lookup has no
  defined result, and neither has the exec event that runs it.
\<close>

theorem prepq_lookup_evict_reads_released_node:
  "pqlist ex_state = [3, 2] \<and>
   refs (the (heap ex_state 3)) = 1 \<and>
   pqttl (the (heap ex_state 3)) + 1 = MAXPQTTL ex_extern \<and>
   \<not> pq_match_image ex_extern 500 ''/usr/bin/cc'' (Some (ex_attr\<lparr>audit_attr_t.ino := 42\<rparr>))
       (the (heap ex_state 3)) \<and>
   pq_skip ex_extern 3 (the (heap ex_state 3)) ex_state \<noteq> None \<and>
   heap (the (pq_skip ex_extern 3 (the (heap ex_state 3)) ex_state)) 3 = None \<and>
   pqlist (the (pq_skip ex_extern 3 (the (heap ex_state 3)) ex_state)) = [2] \<and>
   pqdrop (the (pq_skip ex_extern 3 (the (heap ex_state 3)) ex_state)) = 1 \<and>
   prepq_lookup ex_extern 500 ''/usr/bin/cc'' (Some (ex_attr\<lparr>audit_attr_t.ino := 42\<rparr>)) None
     ex_state = None"
  by (simp add: prepq_lookup_def pq_skip_def ex_state_def ex_extern_def ex_done_def
      ex_hashed_def ex_opened_def ex_image_def ex_stat_def ex_attr_def pq_match_image_def
      prepq_remove_existing_def image_exec_free.simps Let_def)

section \<open>Properties of the event handlers\<close>

text \<open>
  Claim C8.  A spawn event is handled as the fork event followed by the exec
  event whose subject has the pid of the child: \<open>procmon_spawn\<close> gives the state
  that \<open>spawn_spec\<close> describes (the same process table, heap of images and
  counters), and is undefined exactly when that is.
\<close>

theorem spawn_is_fork_then_exec:
  "procmon_spawn x config os tv subj childpid imagepath attr av ev s =
   spawn_spec x config os tv subj childpid imagepath attr av ev s"
proof -
  have e: "subj\<lparr>audit_proc_t.pid := childpid\<rparr> =
      \<lparr>audit_proc_t.pid = childpid, auid = auid subj, euid = euid subj, ruid = ruid subj,
       egid = egid subj, rgid = rgid subj, sid = sid subj\<rparr>"
    by (cases subj) simp
  show ?thesis
    unfolding procmon_spawn_def spawn_spec_def e [symmetric]
    by (cases "procmon_fork os tv subj childpid s") simp_all
qed

text \<open>
  Claim C10.  \<open>procmon_wait4\<close> with pid -1 or 0 returns the state as it was: no
  probe, no removal, no counter changed.  For another pid the probe is made; when
  it does not fail with ESRCH the state is otherwise unchanged, and when it fails
  with ESRCH the event is handled as an exit of that pid.
\<close>

theorem wait4_probe:
  "(p = - 1 \<or> p = 0 \<longrightarrow> procmon_wait4 os tv p s = Some s) \<and>
   (p \<noteq> - 1 \<and> p \<noteq> 0 \<and> kill_r os p \<noteq> Some ESRCH \<longrightarrow>
      procmon_wait4 os tv p s = Some (s\<lparr>probes := probes s @ [p]\<rparr>)) \<and>
   (p \<noteq> - 1 \<and> p \<noteq> 0 \<and> kill_r os p = Some ESRCH \<longrightarrow>
      procmon_wait4 os tv p s = procmon_exit tv p (s\<lparr>probes := probes s @ [p]\<rparr>))"
  by (auto simp: procmon_wait4_def split: option.splits)

theorem wait4_probe_witness:
  "procmon_wait4 ex_os ex_tv 0 ex_state = Some ex_state \<and>
   procmon_wait4 ex_os ex_tv 500 ex_state = Some (ex_state\<lparr>probes := [500]\<rparr>) \<and>
   map_option (\<lambda>t. (proctab t 500, probes t)) (procmon_wait4 ex_os ex_tv 500 ex_state)
     = Some (proctab ex_state 500, [500])"
proof -
  have "kill_r ex_os 500 \<noteq> Some ESRCH" by (simp add: ex_os_def)
  with wait4_probe [of 0 ex_os ex_tv ex_state] wait4_probe [of 500 ex_os ex_tv ex_state]
  show ?thesis by (simp add: ex_state_def)
qed


section \<open>Suppression flags are never taken back\<close>

text \<open>
  Every operation on the heap leaves the images below the allocation mark in
  place or removes them, and never clears NOLOG or NOLOG_KIDS.
\<close>

lemma ev_refl: "wf_heap s \<Longrightarrow> heap_evolves (brk s) (heap s) (brk s) (heap s)"
  by (simp add: wf_heap_def heap_evolves_def)

lemma ev_wf: "heap_evolves b0 h0 (brk s) (heap s) \<Longrightarrow> wf_heap s"
  by (simp add: wf_heap_def heap_evolves_def)

lemma ev_upd:
  assumes "heap_evolves b0 h0 b h" and "h a = Some ei"
    and "EIFLAG_NOLOG_KIDS \<in> flags ei \<longrightarrow> EIFLAG_NOLOG_KIDS \<in> flags ei'"
    and "EIFLAG_NOLOG \<in> flags ei \<longrightarrow> EIFLAG_NOLOG \<in> flags ei'"
  shows "heap_evolves b0 h0 b (h(a \<mapsto> ei'))"
  unfolding heap_evolves_def
proof (intro conjI allI impI)
  from assms(1) show "b0 \<le> b" by (simp add: heap_evolves_def)
next
  fix c
  assume "(h(a \<mapsto> ei')) c \<noteq> None"
  with assms(1,2) show "c < b" by (cases "c = a") (auto simp: heap_evolves_def)
next
  fix c ci'
  assume c: "(h(a \<mapsto> ei')) c = Some ci' \<and> c < b0"
  show "\<exists>ci. h0 c = Some ci \<and>
          (EIFLAG_NOLOG_KIDS \<in> flags ci \<longrightarrow> EIFLAG_NOLOG_KIDS \<in> flags ci') \<and>
          (EIFLAG_NOLOG \<in> flags ci \<longrightarrow> EIFLAG_NOLOG \<in> flags ci')"
  proof (cases "c = a")
    case True
    with c have e: "ci' = ei'" and lt: "a < b0" by simp_all
    from assms(1,2) lt obtain ci where "h0 a = Some ci"
      "EIFLAG_NOLOG_KIDS \<in> flags ci \<longrightarrow> EIFLAG_NOLOG_KIDS \<in> flags ei"
      "EIFLAG_NOLOG \<in> flags ci \<longrightarrow> EIFLAG_NOLOG \<in> flags ei"
      unfolding heap_evolves_def by blast
    with assms(3,4) e True show ?thesis by simp
  next
    case False
    with c have "h c = Some ci' \<and> c < b0" by simp
    with assms(1) show ?thesis unfolding heap_evolves_def by blast
  qed
qed

lemma ev_del:
  assumes "heap_evolves b0 h0 b h"
  shows "heap_evolves b0 h0 b (h(a := None))"
  using assms unfolding heap_evolves_def
  by (simp split: if_splits)

lemma ev_new:
  assumes "heap_evolves b0 h0 b h"
  shows "heap_evolves b0 h0 (Suc b) (h(b \<mapsto> ei))"
  unfolding heap_evolves_def
proof (intro conjI allI impI)
  from assms show "b0 \<le> Suc b" by (simp add: heap_evolves_def)
next
  fix c
  assume "(h(b \<mapsto> ei)) c \<noteq> None"
  with assms have "c = b \<or> c < b" by (cases "c = b") (auto simp: heap_evolves_def)
  then show "c < Suc b" by auto
next
  fix c ci'
  assume c: "(h(b \<mapsto> ei)) c = Some ci' \<and> c < b0"
  moreover from assms have "b0 \<le> b" by (simp add: heap_evolves_def)
  ultimately have "h c = Some ci' \<and> c < b0" by auto
  with assms show "\<exists>ci. h0 c = Some ci \<and>
          (EIFLAG_NOLOG_KIDS \<in> flags ci \<longrightarrow> EIFLAG_NOLOG_KIDS \<in> flags ci') \<and>
          (EIFLAG_NOLOG \<in> flags ci \<longrightarrow> EIFLAG_NOLOG \<in> flags ci')"
    unfolding heap_evolves_def by blast
qed

lemma ev_shrinks:
  assumes "heap_evolves b0 h0 b h" and "heap_shrinks h h'"
  shows "heap_evolves b0 h0 b h'"
  unfolding heap_evolves_def
proof (intro conjI allI impI)
  from assms(1) show "b0 \<le> b" by (simp add: heap_evolves_def)
next
  fix c
  assume "h' c \<noteq> None"
  with assms(2) have "h c \<noteq> None" unfolding heap_shrinks_def by fastforce
  with assms(1) show "c < b" by (simp add: heap_evolves_def)
next
  fix c ci'
  assume c: "h' c = Some ci' \<and> c < b0"
  with assms(2) obtain ci where ci: "h c = Some ci" "ci' = ci\<lparr>refs := refs ci'\<rparr>"
    unfolding heap_shrinks_def by blast
  from ci(2) have "flags ci' = flags (ci\<lparr>refs := refs ci'\<rparr>)" by simp
  then have f: "flags ci' = flags ci" by simp
  from assms(1) ci(1) c obtain c0 where "h0 c = Some c0"
    "EIFLAG_NOLOG_KIDS \<in> flags c0 \<longrightarrow> EIFLAG_NOLOG_KIDS \<in> flags ci"
    "EIFLAG_NOLOG \<in> flags c0 \<longrightarrow> EIFLAG_NOLOG \<in> flags ci"
    unfolding heap_evolves_def by blast
  with f show "\<exists>ci. h0 c = Some ci \<and>
          (EIFLAG_NOLOG_KIDS \<in> flags ci \<longrightarrow> EIFLAG_NOLOG_KIDS \<in> flags ci') \<and>
          (EIFLAG_NOLOG \<in> flags ci \<longrightarrow> EIFLAG_NOLOG \<in> flags ci')"
    by simp
qed

lemma ev_trans:
  assumes "heap_evolves b0 h0 b1 h1" and "heap_evolves b1 h1 b2 h2"
  shows "heap_evolves b0 h0 b2 h2"
  unfolding heap_evolves_def
proof (intro conjI allI impI)
  from assms show "b0 \<le> b2" by (simp add: heap_evolves_def)
next
  fix c
  assume "h2 c \<noteq> None"
  with assms(2) show "c < b2" by (simp add: heap_evolves_def)
next
  fix c ci'
  assume c: "h2 c = Some ci' \<and> c < b0"
  moreover from assms(1) have "b0 \<le> b1" by (simp add: heap_evolves_def)
  ultimately have "h2 c = Some ci' \<and> c < b1" by simp
  with assms(2) obtain c1 where c1: "h1 c = Some c1"
    "EIFLAG_NOLOG_KIDS \<in> flags c1 \<longrightarrow> EIFLAG_NOLOG_KIDS \<in> flags ci'"
    "EIFLAG_NOLOG \<in> flags c1 \<longrightarrow> EIFLAG_NOLOG \<in> flags ci'"
    unfolding heap_evolves_def by blast
  from assms(1) c1(1) c obtain c0 where "h0 c = Some c0"
    "EIFLAG_NOLOG_KIDS \<in> flags c0 \<longrightarrow> EIFLAG_NOLOG_KIDS \<in> flags c1"
    "EIFLAG_NOLOG \<in> flags c0 \<longrightarrow> EIFLAG_NOLOG \<in> flags c1"
    unfolding heap_evolves_def by blast
  with c1 show "\<exists>ci. h0 c = Some ci \<and>
          (EIFLAG_NOLOG_KIDS \<in> flags ci \<longrightarrow> EIFLAG_NOLOG_KIDS \<in> flags ci') \<and>
          (EIFLAG_NOLOG \<in> flags ci \<longrightarrow> EIFLAG_NOLOG \<in> flags ci')"
    by simp
qed

lemma free_ev:
  assumes "heap_evolves b0 h0 (brk s) (heap s)" and "image_exec_free a s = Some s'"
  shows "heap_evolves b0 h0 (brk s') (heap s')"
proof -
  from image_exec_free_frame [OF assms(2)] have sh: "heap_shrinks (heap s) (heap s')"
    and e: "s' = s\<lparr>heap := heap s', images := images s'\<rparr>" by simp_all
  from e have "brk s' = brk (s\<lparr>heap := heap s', images := images s'\<rparr>)" by simp
  then have "brk s' = brk s" by simp
  with ev_shrinks [OF assms(1) sh] show ?thesis by simp
qed

lemma free_proctab:
  assumes "image_exec_free a s = Some s'"
  shows "proctab s' = proctab s"
proof -
  from image_exec_free_frame [OF assms] have
    e: "s' = s\<lparr>heap := heap s', images := images s'\<rparr>" by simp
  from e have "proctab s' = proctab (s\<lparr>heap := heap s', images := images s'\<rparr>)" by simp
  then show ?thesis by simp
qed

lemma ref_ev:
  assumes "heap_evolves b0 h0 (brk s) (heap s)" and "image_exec_ref a s = Some s'"
  shows "heap_evolves b0 h0 (brk s') (heap s')"
proof -
  from assms(2) obtain img where i: "heap s a = Some img"
    and e: "s' = s\<lparr>heap := (heap s)(a \<mapsto> img\<lparr>refs := refs img + 1\<rparr>)\<rparr>"
    by (cases "heap s a") (auto simp: image_exec_ref_def)
  from ev_upd [OF assms(1) i, of "img\<lparr>refs := refs img + 1\<rparr>"] show ?thesis
    unfolding e by simp
qed

lemma image_update_ev:
  assumes "heap_evolves b0 h0 (brk s) (heap s)" and "image_update a f s = Some s'"
    and "\<And>ei. EIFLAG_NOLOG_KIDS \<in> flags ei \<longrightarrow> EIFLAG_NOLOG_KIDS \<in> flags (f ei)"
    and "\<And>ei. EIFLAG_NOLOG \<in> flags ei \<longrightarrow> EIFLAG_NOLOG \<in> flags (f ei)"
  shows "heap_evolves b0 h0 (brk s') (heap s')"
proof -
  from assms(2) obtain img where i: "heap s a = Some img"
    and e: "s' = s\<lparr>heap := (heap s)(a \<mapsto> f img)\<rparr>"
    by (cases "heap s a") (auto simp: image_update_def)
  from ev_upd [OF assms(1) i assms(3) assms(4)] show ?thesis
    unfolding e by simp
qed

lemma new_ev:
  assumes "heap_evolves b0 h0 (brk s) (heap s)" and "image_exec_new ok p s = (r, s')"
  shows "heap_evolves b0 h0 (brk s') (heap s')"
proof (cases ok)
  case True
  with assms(2) have e: "s' = s\<lparr>heap := (heap s)(brk s \<mapsto> new_image p), brk := brk s + 1,
              images := images s + 1\<rparr>"
    by (simp add: image_exec_new_def)
  from ev_new [OF assms(1), of "new_image p"] show ?thesis unfolding e by simp
next
  case False
  with assms show ?thesis by (auto simp: image_exec_new_def)
qed

lemma proc_update_ev:
  assumes "heap_evolves b0 h0 (brk s) (heap s)" and "proc_update p f s = Some s'"
  shows "heap_evolves b0 h0 (brk s') (heap s')"
  using assms by (auto simp: proc_update_def split: option.splits)

lemma proctab_remove_ev:
  assumes "heap_evolves b0 h0 (brk s) (heap s)" and "proctab_remove p tv s = Some s'"
  shows "heap_evolves b0 h0 (brk s') (heap s')"
proof (cases "proctab s p")
  case None
  with assms show ?thesis by (simp add: proctab_remove_def)
next
  case (Some proc)
  show ?thesis
  proof (cases "image_exec proc")
    case None
    with Some assms show ?thesis by (auto simp: proctab_remove_def)
  next
    case (Some a)
    with \<open>proctab s p = Some proc\<close> assms(2) obtain s1 where
      f: "image_exec_free a s = Some s1" and e: "s' = s1\<lparr>proctab := (proctab s1)(p := None)\<rparr>"
      by (auto simp: proctab_remove_def bind_eq_Some_conv)
    from free_ev [OF assms(1) f] show ?thesis unfolding e by simp
  qed
qed


end
